theory Spec2Isabelle
  imports Complex_Main "HOL-Library.Multiset" "HOL-Library.AList"
    "HOL-Library.List_Lexorder" "HOL-Library.Char_ord"
begin

chapter \<open>The program\<close>

section \<open>Data model\<close>

text \<open>
  The training script \<^verbatim>\<open>soft404/train.py\<close> works on crawled pages stored as
  Python dicts. One page is a record; the keys the script reads are its fields.
  \<^verbatim>\<open>item['title']\<close> and \<^verbatim>\<open>item['lang']\<close> may be \<^verbatim>\<open>None\<close>, and
  \<^verbatim>\<open>item.get('blocks', [])\<close> allows the key to be absent, hence the options.
  Python integers are unbounded: positions and \<^verbatim>\<open>idx\<close> values (made by counting
  from 0) are \<open>nat\<close>, every other integer is \<open>int\<close>. A Python \<^verbatim>\<open>str\<close> is a
  \<open>string\<close>, one \<open>char\<close> per character.
\<close>

record item =
  item_idx :: nat
  item_url :: string
  item_status :: int
  item_lang :: "string option"
  item_text :: string
  item_title :: "string option"
  item_blocks :: "(string \<times> string) list option"

datatype error = AssertionError | FileNotFoundError | ValueError

section \<open>Stream reader: \<^verbatim>\<open>file_reader\<close>\<close>

text \<open>
  A dataset file holds a sequence of pickled items. The file system maps a file name to
  the items stored under it; reading a file does not change it.
\<close>

type_synonym filesystem = "string \<rightharpoonup> item list"

text \<open>
  Modelled from the spec: \<^verbatim>\<open>pickle_stream_reader\<close> of \<^verbatim>\<open>soft404/utils.py\<close>,
  which is not among the sources. The specification of the stream reader says that every
  stored item gets a 0-based sequential \<^verbatim>\<open>idx\<close> in read order before any filter is
  applied, and that with an index set only the items whose \<^verbatim>\<open>idx\<close> is a member are
  produced. It yields pairs \<^verbatim>\<open>(idx, item)\<close>.
\<close>

definition pickle_stream_reader :: "item list \<Rightarrow> nat set option \<Rightarrow> (nat \<times> item) list" where
  "pickle_stream_reader f indices =
     filter (\<lambda>(idx, _). case indices of None \<Rightarrow> True | Some S \<Rightarrow> idx \<in> S) (enumerate 0 f)"

text \<open>
  \<^verbatim>\<open>
  def file_reader(filename, indices=None, limit=None):
      with open(filename, 'rb') as f:
          for idx, item in pickle_stream_reader(f, indices):
              if limit is not None and idx >= limit:
                  break
              item['idx'] = idx
              if item['status'] in {200, 404}:
                  yield item
  \<close>
  The generator is modelled by the list of the items it yields. The loop body is
  \<open>file_reader_loop\<close>: \<^verbatim>\<open>break\<close> ends the list, the assignment to
  \<^verbatim>\<open>item['idx']\<close> is a record update, and an item of another status is skipped.
  Opening a file that does not exist raises.
\<close>

fun file_reader_loop :: "int option \<Rightarrow> (nat \<times> item) list \<Rightarrow> item list" where
  "file_reader_loop limit [] = []"
| "file_reader_loop limit ((idx, it) # rest) =
     (if limit \<noteq> None \<and> int idx \<ge> the limit then []
      else let it' = it\<lparr>item_idx := idx\<rparr>
           in if item_status it' \<in> {200, 404}
              then it' # file_reader_loop limit rest
              else file_reader_loop limit rest)"

definition file_reader ::
  "filesystem \<Rightarrow> string \<Rightarrow> nat set option \<Rightarrow> int option \<Rightarrow> error + item list" where
  "file_reader fs filename indices limit =
     (case fs filename of
        None \<Rightarrow> Inl FileNotFoundError
      | Some f \<Rightarrow> Inr (file_reader_loop limit (pickle_stream_reader f indices)))"

text \<open>
  \<^verbatim>\<open>
  def get_lang_indices(reader, only_lang):
      langs = [(item['idx'], item['lang']) for item in reader()]
      ...
      return {idx for idx, lang in langs if lang == only_lang}

  def data_iter(reader, flt_indices, indices=None):
      if flt_indices is not None:
          indices = (flt_indices if indices is None
                     else set(indices) & flt_indices)
      return reader(indices=indices)
  \<close>
  A \<^verbatim>\<open>reader\<close> is \<^verbatim>\<open>partial(file_reader, filename=..., limit=...)\<close>: a function of
  the index set alone. The printing of the language statistics is left out.
\<close>

definition get_lang_indices ::
  "(nat set option \<Rightarrow> error + item list) \<Rightarrow> string \<Rightarrow> error + nat set" where
  "get_lang_indices reader only_lang =
     (case reader None of
        Inl e \<Rightarrow> Inl e
      | Inr items \<Rightarrow>
          (let langs = map (\<lambda>it. (item_idx it, item_lang it)) items
           in Inr (set (map fst (filter (\<lambda>(idx, lang). lang = Some only_lang) langs)))))"

definition data_iter ::
  "(nat set option \<Rightarrow> error + item list) \<Rightarrow> nat set option \<Rightarrow> nat list option
     \<Rightarrow> error + item list" where
  "data_iter reader flt_indices indices =
     reader (case flt_indices of
               None \<Rightarrow> map_option set indices
             | Some flt \<Rightarrow>
                 (case indices of None \<Rightarrow> Some flt | Some ind \<Rightarrow> Some (set ind \<inter> flt)))"

section \<open>Text featurizer: \<^verbatim>\<open>tokenize\<close> and \<^verbatim>\<open>item_to_text\<close>\<close>

text \<open>
  \<^verbatim>\<open>
  token_pattern = r"(?u)\b[_\w][_\w]+\b"

  def tokenize(text):
      return re.findall(token_pattern, text, re.U)
  \<close>
  The pattern is matched the way Python's backtracking \<^verbatim>\<open>re\<close> engine does it. The
  class \<^verbatim>\<open>\w\<close> comes from the Unicode database, which is no part of the program:
  it is the parameter \<open>W\<close> of the matcher.

  \<^item> \<^verbatim>\<open>\b\<close> holds at a position when exactly one of the characters before and after
    it is a \<^verbatim>\<open>\w\<close> character, the start and the end of the text counting as not
    \<^verbatim>\<open>\w\<close> (\<open>word_boundary\<close>);
  \<^item> \<^verbatim>\<open>[_\w]\<close> accepts the underscore and every \<^verbatim>\<open>\w\<close> character (\<open>in_class\<close>);
  \<^item> the greedy repetition takes one more character whenever it can and gives characters
    back only when what follows fails (\<open>star_boundary\<close>: the tail \<^verbatim>\<open>[_\w]*\b\<close> tried
    right after the character \<open>prev\<close>, returning the number of characters matched);
  \<^item> \<open>match_token\<close> tries the whole pattern at one position, \<open>prev\<close> being the
    character before it, and returns the length of the match;
  \<^item> \<^verbatim>\<open>findall\<close> scans from left to right: after a match it goes on at the end of
    the match, otherwise one character further (\<open>findall_token\<close>).
\<close>

definition word_boundary :: "(char \<Rightarrow> bool) \<Rightarrow> char option \<Rightarrow> string \<Rightarrow> bool" where
  "word_boundary W prev rest =
     ((case prev of None \<Rightarrow> False | Some c \<Rightarrow> W c)
        \<noteq> (case rest of [] \<Rightarrow> False | c # _ \<Rightarrow> W c))"

definition in_class :: "(char \<Rightarrow> bool) \<Rightarrow> char \<Rightarrow> bool" where
  "in_class W c = (c = CHR ''_'' \<or> W c)"

fun star_boundary :: "(char \<Rightarrow> bool) \<Rightarrow> char \<Rightarrow> string \<Rightarrow> nat option" where
  "star_boundary W prev [] = (if word_boundary W (Some prev) [] then Some 0 else None)"
| "star_boundary W prev (c # cs) =
     (case (if in_class W c then star_boundary W c cs else None) of
        Some n \<Rightarrow> Some (Suc n)
      | None \<Rightarrow> if word_boundary W (Some prev) (c # cs) then Some 0 else None)"

definition match_token :: "(char \<Rightarrow> bool) \<Rightarrow> char option \<Rightarrow> string \<Rightarrow> nat option" where
  "match_token W prev s =
     (if word_boundary W prev s then
        (case s of
           c1 # c2 # cs \<Rightarrow>
             if in_class W c1 \<and> in_class W c2
             then map_option (\<lambda>n. n + 2) (star_boundary W c2 cs)
             else None
         | _ \<Rightarrow> None)
      else None)"

lemma match_token_pos: "match_token W prev s = Some n \<Longrightarrow> 0 < n"
  by (auto simp: match_token_def split: if_splits list.splits)

function findall_token :: "(char \<Rightarrow> bool) \<Rightarrow> char option \<Rightarrow> string \<Rightarrow> string list" where
  "findall_token W prev [] = []"
| "findall_token W prev (c # cs) =
     (case match_token W prev (c # cs) of
        None \<Rightarrow> findall_token W (Some c) cs
      | Some n \<Rightarrow>
          take n (c # cs)
            # findall_token W (Some ((c # cs) ! (n - 1))) (drop n (c # cs)))"
  by pat_completeness auto
termination
  by (relation "measure (\<lambda>(W, prev, s). length s)") (auto dest: match_token_pos)

definition tokenize :: "(char \<Rightarrow> bool) \<Rightarrow> string \<Rightarrow> string list" where
  "tokenize W s = findall_token W None s"

text \<open>
  The \<^verbatim>\<open>\w\<close> class on ASCII text: letters, digits and the underscore. It is used
  where a concrete text is tokenized.
\<close>

definition ascii_word :: "char \<Rightarrow> bool" where
  "ascii_word c =
     ((CHR ''a'' \<le> c \<and> c \<le> CHR ''z'') \<or> (CHR ''A'' \<le> c \<and> c \<le> CHR ''Z'')
      \<or> (CHR ''0'' \<le> c \<and> c \<le> CHR ''9'') \<or> c = CHR ''_'')"

text \<open>
  \<^verbatim>\<open>
  def item_to_text(item):
      text = [item['text']]
      if item['title']:
          text.extend('__title__{}'.format(w) for w in tokenize(item['title']))
      for tag, block_text in item.get('blocks', []):
          text.extend('__{}__{}'.format(tag, w) for w in tokenize(block_text))
      return ' '.join(text)
  \<close>
  \<open>join\<close> is \<^verbatim>\<open>str.join\<close>. A title that is \<^verbatim>\<open>None\<close> or empty is falsy.
\<close>

fun join :: "string \<Rightarrow> string list \<Rightarrow> string" where
  "join sep [] = []"
| "join sep [x] = x"
| "join sep (x # y # ys) = x @ sep @ join sep (y # ys)"

definition item_to_text :: "(char \<Rightarrow> bool) \<Rightarrow> item \<Rightarrow> string" where
  "item_to_text W it =
     (let parts = [item_text it];
          parts = (case item_title it of
                     None \<Rightarrow> parts
                   | Some t \<Rightarrow>
                       if t \<noteq> [] then parts @ map (\<lambda>w. ''__title__'' @ w) (tokenize W t)
                       else parts);
          parts = foldl (\<lambda>parts (tag, block_text).
                           parts @ map (\<lambda>w. ''__'' @ tag @ ''__'' @ w) (tokenize W block_text))
                    parts (case item_blocks it of None \<Rightarrow> [] | Some bs \<Rightarrow> bs)
      in join '' '' parts)"

text \<open>
  \<^verbatim>\<open>
  def get_xy(items, only_ys=False):
      xs = []
      ys = []
      for item in items:
          if not only_ys:
              xs.append(item_to_text(item))
          ys.append(item['status'] == 404)
      ys = np.array(ys)
      return ys if only_ys else (xs, ys)
  \<close>
  The two shapes of the result are two functions.
\<close>

definition get_xy :: "(char \<Rightarrow> bool) \<Rightarrow> item list \<Rightarrow> string list \<times> bool list" where
  "get_xy W items = (map (item_to_text W) items, map (\<lambda>it. item_status it = 404) items)"

definition get_xy_only_ys :: "item list \<Rightarrow> bool list" where
  "get_xy_only_ys items = map (\<lambda>it. item_status it = 404) items"

section \<open>Incremental trainer: \<^verbatim>\<open>train_clf\<close> and \<^verbatim>\<open>check_class_weights\<close>\<close>

text \<open>
  Modelled from the spec: \<^verbatim>\<open>batches\<close> of \<^verbatim>\<open>soft404/utils.py\<close>, which is not
  among the sources. The specification of the trainer says that the indices are processed
  in consecutive batches of the batch size, that an empty batch is skipped and that a
  partially filled final batch is still processed. It says nothing about a batch size
  of 0, for which this model produces no batch.
\<close>

function batches :: "'a list \<Rightarrow> nat \<Rightarrow> 'a list list" where
  "batches lst n = (if lst = [] \<or> n = 0 then [] else take n lst # batches (drop n lst) n)"
  by pat_completeness auto
termination
  by (relation "measure (\<lambda>(lst, n). length lst)") auto

text \<open>
  The classifier and the vectorizer are scikit-learn objects. What the program does with
  the classifier while training is a sequence of \<^verbatim>\<open>partial_fit\<close> calls, so the
  classifier is modelled by the calls it has accepted, each with the texts of the batch
  (that \<^verbatim>\<open>vect.transform\<close> turns into features), the labels and the class list.
  \<^verbatim>\<open>SGDClassifier.partial_fit\<close> refuses a batch without samples with a
  \<^verbatim>\<open>ValueError\<close>; \<^verbatim>\<open>train_clf\<close> does not catch it.

  \<^verbatim>\<open>np.random.shuffle\<close> permutes a list in place, driven by the global random state
  of numpy. It is the parameter \<open>shuffle\<close>: from the random state and the list to the
  permuted list and the next random state. The list \<^verbatim>\<open>train_idx\<close> belongs to the
  caller and is mutated, so it is part of the state the functions return.

  \<^verbatim>\<open>data\<close> is \<^verbatim>\<open>partial(data_iter, reader, flt_indices)\<close>; it reads the dataset
  file and can fail.
\<close>

type_synonym clf = "(string list \<times> bool list \<times> bool list) list"

definition partial_fit ::
  "clf \<Rightarrow> string list \<Rightarrow> bool list \<Rightarrow> bool list \<Rightarrow> error + clf" where
  "partial_fit c x y classes =
     (if x = [] then Inl ValueError else Inr (c @ [(x, y, classes)]))"

record 'r train_state =
  ts_clf :: clf
  ts_train_idx :: "nat list"
  ts_rng :: 'r

text \<open>
  \<^verbatim>\<open>
  def train_clf(clf, vect, data, train_idx, classes, n_epochs=2, batch_size=5000):
      for epoch in range(n_epochs):
          np.random.shuffle(train_idx)
          for indices in batches(train_idx, batch_size):
              _x, _y = get_xy(data(indices))
              clf.partial_fit(vect.transform(_x), _y, classes=classes)
  \<close>
  \<open>train_batches\<close> is the inner loop, \<open>train_epochs\<close> the outer one, counting the
  epochs that remain.
\<close>

fun train_batches ::
  "(char \<Rightarrow> bool) \<Rightarrow> (nat list option \<Rightarrow> error + item list) \<Rightarrow> bool list \<Rightarrow> clf
     \<Rightarrow> nat list list \<Rightarrow> error + clf" where
  "train_batches W data classes c [] = Inr c"
| "train_batches W data classes c (indices # rest) =
     (case data (Some indices) of
        Inl e \<Rightarrow> Inl e
      | Inr items \<Rightarrow>
          (let (x, y) = get_xy W items
           in case partial_fit c x y classes of
                Inl e \<Rightarrow> Inl e
              | Inr c' \<Rightarrow> train_batches W data classes c' rest))"

fun train_epochs ::
  "(char \<Rightarrow> bool) \<Rightarrow> ('r \<Rightarrow> nat list \<Rightarrow> nat list \<times> 'r)
     \<Rightarrow> (nat list option \<Rightarrow> error + item list) \<Rightarrow> bool list \<Rightarrow> nat \<Rightarrow> nat
     \<Rightarrow> 'r train_state \<Rightarrow> error + 'r train_state" where
  "train_epochs W shuffle data classes batch_size 0 st = Inr st"
| "train_epochs W shuffle data classes batch_size (Suc n) st =
     (let (train_idx, rng) = shuffle (ts_rng st) (ts_train_idx st)
      in case train_batches W data classes (ts_clf st) (batches train_idx batch_size) of
           Inl e \<Rightarrow> Inl e
         | Inr c \<Rightarrow>
             train_epochs W shuffle data classes batch_size n
               \<lparr>ts_clf = c, ts_train_idx = train_idx, ts_rng = rng\<rparr>)"

definition train_clf ::
  "(char \<Rightarrow> bool) \<Rightarrow> ('r \<Rightarrow> nat list \<Rightarrow> nat list \<times> 'r)
     \<Rightarrow> (nat list option \<Rightarrow> error + item list) \<Rightarrow> 'r train_state \<Rightarrow> bool list \<Rightarrow> nat \<Rightarrow> nat
     \<Rightarrow> error + 'r train_state" where
  "train_clf W shuffle data st classes n_epochs batch_size =
     train_epochs W shuffle data classes batch_size n_epochs st"

text \<open>
  \<^verbatim>\<open>
  def check_class_weights(classes, data, train_idx, test_y):
      print('\nTest class weight: {}'.format(
          compute_class_weight('balanced', classes, test_y)))
      np.random.shuffle(train_idx)
      class_weight = compute_class_weight(
          'balanced', classes, get_xy(data(train_idx[:1000]), only_ys=True))
      print('Train class weight: {}'.format(class_weight))
  \<close>
  The printing is left out; the result is the labels of the training sample that the
  weights are computed from, with the mutated \<^verbatim>\<open>train_idx\<close> and the random state.
\<close>

definition check_class_weights ::
  "('r \<Rightarrow> nat list \<Rightarrow> nat list \<times> 'r) \<Rightarrow> (nat list option \<Rightarrow> error + item list)
     \<Rightarrow> nat list \<Rightarrow> 'r \<Rightarrow> error + (bool list \<times> nat list \<times> 'r)" where
  "check_class_weights shuffle data train_idx rng =
     (let (train_idx', rng') = shuffle rng train_idx
      in case data (Some (take 1000 train_idx')) of
           Inl e \<Rightarrow> Inl e
         | Inr items \<Rightarrow> Inr (get_xy_only_ys items, train_idx', rng'))"

section \<open>Resolving logical ids: \<^verbatim>\<open>to_data_idx\<close>\<close>

text \<open>
  \<^verbatim>\<open>
  def to_data_idx(indices, urls):
      indices = set(indices)
      result = [data_idx for idx, (data_idx, _) in enumerate(urls)
                if idx in indices]
      assert len(result) == len(indices)
      return result
  \<close>
  The requested ids are arbitrary Python integers, so they are \<open>int\<close>; the positions
  that \<^verbatim>\<open>enumerate\<close> produces are compared with them through \<open>int\<close>.
  \<^verbatim>\<open>len(set(indices))\<close> is the number of distinct requested ids.
\<close>

definition to_data_idx :: "int list \<Rightarrow> (nat \<times> string) list \<Rightarrow> error + nat list" where
  "to_data_idx indices urls =
     (let indices' = remdups indices;
          result = map (\<lambda>(idx, (data_idx, _)). data_idx)
                     (filter (\<lambda>(idx, _). int idx \<in> set indices') (enumerate 0 urls))
      in if length result = length indices' then Inr result else Inl AssertionError)"

section \<open>Driver: identities, folds and the report of \<^verbatim>\<open>main\<close>\<close>

text \<open>
  \<^verbatim>\<open>
  reader = partial(file_reader, filename=args.filename, limit=args.limit)
  ...
  data = partial(data_iter, reader, flt_indices)
  urls = [(item['idx'], item['url']) for item in data()]
  ...
  lkf = LabelKFold([get_domain(url) for _, url in urls], n_folds=10)
  \<close>
  \<^verbatim>\<open>get_domain\<close> calls the \<^verbatim>\<open>tldextract\<close> library and is a parameter.
\<close>

definition main_reader ::
  "filesystem \<Rightarrow> string \<Rightarrow> int option \<Rightarrow> nat set option \<Rightarrow> error + item list" where
  "main_reader fs filename limit indices = file_reader fs filename indices limit"

definition main_data ::
  "filesystem \<Rightarrow> string \<Rightarrow> int option \<Rightarrow> nat set option \<Rightarrow> nat list option
     \<Rightarrow> error + item list" where
  "main_data fs filename limit flt_indices = data_iter (main_reader fs filename limit) flt_indices"

definition main_urls ::
  "(nat list option \<Rightarrow> error + item list) \<Rightarrow> error + (nat \<times> string) list" where
  "main_urls data =
     (case data None of
        Inl e \<Rightarrow> Inl e
      | Inr items \<Rightarrow> Inr (map (\<lambda>it. (item_idx it, item_url it)) items))"

definition main_labels :: "(string \<Rightarrow> string) \<Rightarrow> (nat \<times> string) list \<Rightarrow> string list" where
  "main_labels get_domain urls = map (\<lambda>(_, url). get_domain url) urls"

text \<open>
  Modelled from the spec: the grouped fold splitter, \<^verbatim>\<open>LabelKFold\<close> of scikit-learn,
  which is not among the sources. The specification says that the identities (the
  positions of the label list) are grouped by label, that whole groups are distributed
  across the K folds, how being left to the implementation, and that a fold is the pair
  of its train and its test identities. The distribution is the parameter \<open>fold_of\<close>,
  from a label to the number of the fold that tests its group; the train side of a fold
  is every other identity.
\<close>

definition LabelKFold ::
  "('l \<Rightarrow> nat) \<Rightarrow> 'l list \<Rightarrow> nat \<Rightarrow> (nat list \<times> nat list) list" where
  "LabelKFold fold_of labels n_folds =
     map (\<lambda>f. (filter (\<lambda>i. fold_of (labels ! i) \<noteq> f) [0..<length labels],
               filter (\<lambda>i. fold_of (labels ! i) = f) [0..<length labels]))
       [0..<n_folds]"

text \<open>
  Modelled from the spec: how the splitter distributes the groups, which is part of
  \<^verbatim>\<open>LabelKFold\<close> and not among the sources. The specification asks for a
  deterministic function of the label list and K that gives whole groups to the K folds
  and leaves the balancing open. In this model every group in turn, with the number of
  its identities as weight, goes to the fold that is lightest so far (\<open>lightest\<close>: the
  first position of a minimum of the fold weights); \<open>group_fold\<close> is the resulting
  map from a label to its fold, and \<open>main_folds\<close> the folds that \<^verbatim>\<open>main\<close> gets
  for its url list.
\<close>

fun lightest :: "nat list \<Rightarrow> nat" where
  "lightest [] = 0"
| "lightest [x] = 0"
| "lightest (x # y # ys) =
     (let i = lightest (y # ys) in if x \<le> (y # ys) ! i then 0 else Suc i)"

fun distribute :: "('l \<times> nat) list \<Rightarrow> nat list \<Rightarrow> ('l \<times> nat) list" where
  "distribute [] weights = []"
| "distribute ((g, n) # groups) weights =
     (let f = lightest weights
      in (g, f) # distribute groups (weights[f := weights ! f + n]))"

definition group_fold :: "'l list \<Rightarrow> nat \<Rightarrow> 'l \<Rightarrow> nat" where
  "group_fold labels n_folds l =
     (case map_of (distribute (map (\<lambda>g. (g, count_list labels g)) (remdups labels))
                     (replicate n_folds 0)) l of
        None \<Rightarrow> 0
      | Some f \<Rightarrow> f)"

definition main_folds ::
  "(string \<Rightarrow> string) \<Rightarrow> (nat \<times> string) list \<Rightarrow> nat \<Rightarrow> (nat list \<times> nat list) list" where
  "main_folds get_domain urls n_folds =
     (let labels = main_labels get_domain urls
      in LabelKFold (group_fold labels n_folds) labels n_folds)"

text \<open>
  \<^verbatim>\<open>
  all_metrics = defaultdict(list)
  ...
  for eval_metrics in _map(_eval_clf, enumerate(lkf)):
      for k, v in eval_metrics.items():
          all_metrics[k].append(v)
  for k, v in sorted(all_metrics.items()):
      print('{:<5} {:.2f} \<plusminus> {:.2f}'.format(k, np.mean(v), np.std(v) * 2))
  \<close>
  A dict is an association list in insertion order with distinct keys. The metric values
  are floating-point numbers, idealised as reals; \<^verbatim>\<open>np.mean\<close> is the arithmetic mean
  and \<^verbatim>\<open>np.std\<close> the population standard deviation. \<open>collect_metrics\<close> is the first
  loop, over the fold results in the order they arrive; \<open>report\<close> is the second loop,
  the printed line being the triple of the name and the two numbers before formatting.
  The keys are distinct, so sorting the items is sorting by key.
\<close>

definition append_metric ::
  "(string \<times> real list) list \<Rightarrow> string \<times> real \<Rightarrow> (string \<times> real list) list" where
  "append_metric all_metrics kv =
     (case kv of (k, v) \<Rightarrow>
        AList.update k ((case map_of all_metrics k of None \<Rightarrow> [] | Some vs \<Rightarrow> vs) @ [v])
          all_metrics)"

definition collect_metrics :: "(string \<times> real) list list \<Rightarrow> (string \<times> real list) list" where
  "collect_metrics results =
     foldl (\<lambda>all_metrics eval_metrics. foldl append_metric all_metrics eval_metrics) [] results"

definition np_mean :: "real list \<Rightarrow> real" where
  "np_mean v = sum_list v / real (length v)"

definition np_std :: "real list \<Rightarrow> real" where
  "np_std v = sqrt (np_mean (map (\<lambda>x. \<bar>x - np_mean v\<bar>\<^sup>2) v))"

definition report :: "(string \<times> real) list list \<Rightarrow> (string \<times> real \<times> real) list" where
  "report results =
     map (\<lambda>(k, v). (k, np_mean v, np_std v * 2)) (sort_key fst (collect_metrics results))"

section \<open>Notions used to state the properties\<close>

text \<open>
  The conditions of the stream reader, as the specification words them: an index is
  \<open>wanted\<close> when no index set is given or it is a member, it is \<open>below\<close> the limit
  when no limit is given or it is smaller, and a stored item is \<open>kept\<close> when both hold
  and its status is 200 or 404.
\<close>

definition wanted :: "nat set option \<Rightarrow> nat \<Rightarrow> bool" where
  "wanted indices i = (case indices of None \<Rightarrow> True | Some S \<Rightarrow> i \<in> S)"

definition below :: "int option \<Rightarrow> nat \<Rightarrow> bool" where
  "below limit i = (case limit of None \<Rightarrow> True | Some l \<Rightarrow> int i < l)"

definition kept :: "item list \<Rightarrow> nat set option \<Rightarrow> int option \<Rightarrow> nat \<Rightarrow> bool" where
  "kept ds indices limit i =
     (wanted indices i \<and> below limit i \<and> item_status (ds ! i) \<in> {200, 404})"

text \<open>
  The tokens as the specification words them: the maximal runs of word characters
  (\<open>word_runs\<close>), in order of occurrence, that have at least two characters.
\<close>

function word_runs :: "(char \<Rightarrow> bool) \<Rightarrow> string \<Rightarrow> string list" where
  "word_runs W [] = []"
| "word_runs W (c # cs) =
     (if W c then takeWhile W (c # cs) # word_runs W (dropWhile W cs)
      else word_runs W cs)"
  by pat_completeness auto
termination
  by (relation "measure (\<lambda>(W, s). length s)")
    (auto simp: le_imp_less_Suc length_dropWhile_le)

definition spec_tokens :: "(char \<Rightarrow> bool) \<Rightarrow> string \<Rightarrow> string list" where
  "spec_tokens W s = filter (\<lambda>r. 2 \<le> length r) (word_runs W s)"

text \<open>A small dataset, for running the program on.\<close>

definition ex_item :: "string \<Rightarrow> int \<Rightarrow> string \<Rightarrow> item" where
  "ex_item u s t =
     \<lparr>item_idx = 0, item_url = u, item_status = s, item_lang = Some ''en'',
      item_text = t, item_title = None, item_blocks = None\<rparr>"

definition ex_dataset :: "item list" where
  "ex_dataset =
     [ex_item ''http://a.example.com/1'' 200 ''hello world'',
      ex_item ''http://b.example.org/x'' 500 ''oops'',
      ex_item ''http://www.example.com/gone'' 404 ''not found'',
      ex_item ''http://example.net/'' 200 ''welcome'']"

definition ex_fs :: filesystem where
  "ex_fs = [''pages.pickle'' \<mapsto> ex_dataset]"

text \<open>
  Whether the character before the current position is a word character, the start of
  the text counting as none.
\<close>

definition is_w :: "(char \<Rightarrow> bool) \<Rightarrow> char option \<Rightarrow> bool" where
  "is_w W prev = (case prev of None \<Rightarrow> False | Some c \<Rightarrow> W c)"

text \<open>A page with the title \<^verbatim>\<open>Foo\<close> and the single block \<^verbatim>\<open>("h1", "Bar")\<close>.\<close>

definition ex_page :: "string \<Rightarrow> item" where
  "ex_page body =
     \<lparr>item_idx = 0, item_url = ''http://example.com/'', item_status = 404,
      item_lang = Some ''en'', item_text = body, item_title = Some ''Foo'',
      item_blocks = Some [(''h1'', ''Bar'')]\<rparr>"

text \<open>
  What \<^verbatim>\<open>n\<close> shuffles in a row make of a list and a random state.
\<close>

fun shuffle_times ::
  "('r \<Rightarrow> nat list \<Rightarrow> nat list \<times> 'r) \<Rightarrow> nat \<Rightarrow> nat list \<times> 'r \<Rightarrow> nat list \<times> 'r" where
  "shuffle_times shuffle 0 p = p"
| "shuffle_times shuffle (Suc n) (xs, r) = shuffle_times shuffle n (shuffle r xs)"

text \<open>
  A run of the trainer on the small dataset: a shuffle that rotates the list by a number
  of places taken from the random state, the data access of \<^verbatim>\<open>main\<close> without a
  language filter, and a fresh classifier with two training indices.
\<close>

definition ex_shuffle :: "nat \<Rightarrow> nat list \<Rightarrow> nat list \<times> nat" where
  "ex_shuffle r xs = (rotate (Suc r) xs, Suc r)"

definition ex_data :: "nat list option \<Rightarrow> error + item list" where
  "ex_data = main_data ex_fs ''pages.pickle'' None None"

definition ex_state :: "nat train_state" where
  "ex_state = \<lparr>ts_clf = [], ts_train_idx = [0, 2], ts_rng = 0\<rparr>"


text \<open>
  For the report, as the specification words it: the values of one metric over the fold
  results, in the order the results arrive (\<open>fold_values\<close>), and the metric names
  that occur (\<open>metric_names\<close>). \<open>vals\<close> reads \<^verbatim>\<open>all_metrics\<close> as a
  \<^verbatim>\<open>defaultdict(list)\<close>.
\<close>

definition fold_values :: "string \<Rightarrow> (string \<times> real) list list \<Rightarrow> real list" where
  "fold_values k results =
     concat (map (\<lambda>eval_metrics. map snd (filter (\<lambda>(k', v). k' = k) eval_metrics)) results)"

definition metric_names :: "(string \<times> real) list list \<Rightarrow> string set" where
  "metric_names results = set (concat (map (map fst) results))"

definition vals :: "(string \<times> real list) list \<Rightarrow> string \<Rightarrow> real list" where
  "vals al k = (case map_of al k of None \<Rightarrow> [] | Some vs \<Rightarrow> vs)"

text \<open>Two fold results, arriving with their keys in different orders.\<close>

definition ex_results :: "(string \<times> real) list list" where
  "ex_results = [[(''F1'', 1/2), (''AUC'', 3/4)], [(''AUC'', 1/4), (''F1'', 1/2)]]"

text \<open>
  The identities of the small dataset, a domain function on its urls and a distribution
  of its two domains over two folds.
\<close>

definition ex_get_domain :: "string \<Rightarrow> string" where
  "ex_get_domain url =
     (if url = ''http://a.example.com/1'' \<or> url = ''http://www.example.com/gone''
      then ''example.com''
      else if url = ''http://example.net/'' then ''example.net'' else ''example.org'')"

definition ex_fold_of :: "string \<Rightarrow> nat" where
  "ex_fold_of d = (if d = ''example.com'' then 0 else 1)"

definition ex_urls :: "(nat \<times> string) list" where
  "ex_urls =
     [(0, ''http://a.example.com/1''), (2, ''http://www.example.com/gone''),
      (3, ''http://example.net/'')]"

chapter \<open>Properties\<close>

section \<open>The stream reader\<close>

lemma file_reader_loop_filter:
  "sorted (map fst ps) \<Longrightarrow>
   file_reader_loop limit ps =
     map (\<lambda>(i, it). it\<lparr>item_idx := i\<rparr>)
       (filter (\<lambda>(i, it). below limit i \<and> item_status it \<in> {200, 404}) ps)"
proof (induction ps)
  case Nil
  show ?case by simp
next
  case (Cons p ps)
  obtain i it where p: "p = (i, it)" by (cases p)
  from Cons.prems have srt: "sorted (map fst ps)" and le: "\<forall>q\<in>set ps. i \<le> fst q"
    by (auto simp: p)
  show ?case
  proof (cases limit)
    case None
    with Cons.IH[OF srt] show ?thesis
      by (simp add: p Let_def below_def)
  next
    case (Some l)
    show ?thesis
    proof (cases "int i < l")
      case True
      with Some Cons.IH[OF srt] show ?thesis
        by (simp add: p Let_def below_def)
    next
      case False
      with le Some have "\<forall>q\<in>set ps. \<not> below limit (fst q)"
        by (fastforce simp: below_def)
      then have "filter (\<lambda>(i, it). below limit i \<and> item_status it \<in> {200, 404}) ps = []"
        by (auto simp: filter_empty_conv)
      with False Some show ?thesis
        by (simp add: p below_def)
    qed
  qed
qed

lemma sorted_pickle_stream_reader: "sorted (map fst (pickle_stream_reader f indices))"
  unfolding pickle_stream_reader_def
  by (rule sorted_filter) simp

lemma enumerate_as_map: "enumerate 0 ds = map (\<lambda>i. (i, ds ! i)) [0..<length ds]"
  by (rule nth_equalityI) (simp_all add: nth_enumerate_eq)

text \<open>
  The items of one pass, in closed form: the stored items that are kept, in file order,
  each with its position in the file as \<^verbatim>\<open>idx\<close>.
\<close>

lemma file_reader_loop_closed:
  "file_reader_loop limit (pickle_stream_reader ds indices) =
     map (\<lambda>i. (ds ! i)\<lparr>item_idx := i\<rparr>) (filter (kept ds indices limit) [0..<length ds])"
proof -
  have psr: "pickle_stream_reader ds indices
      = map (\<lambda>i. (i, ds ! i)) (filter (wanted indices) [0..<length ds])"
    by (simp add: pickle_stream_reader_def enumerate_as_map filter_map comp_def
        wanted_def[abs_def])
  have flt: "filter (\<lambda>(i, it). below limit i \<and> item_status it \<in> {200, 404})
       (map (\<lambda>i. (i, ds ! i)) (filter (wanted indices) [0..<length ds]))
     = map (\<lambda>i. (i, ds ! i)) (filter (kept ds indices limit) [0..<length ds])"
    by (simp add: filter_map comp_def kept_def[abs_def] conj_commute)
  have "file_reader_loop limit (pickle_stream_reader ds indices) =
     map (\<lambda>(i, it). it\<lparr>item_idx := i\<rparr>)
       (filter (\<lambda>(i, it). below limit i \<and> item_status it \<in> {200, 404})
          (pickle_stream_reader ds indices))"
    by (rule file_reader_loop_filter[OF sorted_pickle_stream_reader])
  then show ?thesis
    by (simp only: psr flt) (simp add: comp_def)
qed

lemma file_reader_closed:
  "fs filename = Some ds \<Longrightarrow>
   file_reader fs filename indices limit =
     Inr (map (\<lambda>i. (ds ! i)\<lparr>item_idx := i\<rparr>) (filter (kept ds indices limit) [0..<length ds]))"
  by (simp add: file_reader_def file_reader_loop_closed)

text \<open>
  Claim C3. Every item that \<^verbatim>\<open>file_reader\<close> yields carries as \<^verbatim>\<open>idx\<close> its
  0-based position in the file, counted over all stored items before any filtering (it
  is the stored item at that position with \<^verbatim>\<open>idx\<close> set); its \<^verbatim>\<open>idx\<close> is below
  the limit when there is one and in the index set when there is one; and its status is
  200 or 404. The items come in increasing order of \<^verbatim>\<open>idx\<close>.
\<close>

theorem file_reader_yields:
  assumes "fs filename = Some ds"
  shows "\<exists>items. file_reader fs filename indices limit = Inr items
           \<and> sorted_wrt (<) (map item_idx items)
           \<and> (\<forall>it\<in>set items.
                 item_idx it < length ds
               \<and> it = (ds ! item_idx it)\<lparr>item_idx := item_idx it\<rparr>
               \<and> (\<forall>l. limit = Some l \<longrightarrow> int (item_idx it) < l)
               \<and> (\<forall>S. indices = Some S \<longrightarrow> item_idx it \<in> S)
               \<and> item_status it \<in> {200, 404})"
proof -
  let ?is = "filter (kept ds indices limit) [0..<length ds]"
  let ?items = "map (\<lambda>i. (ds ! i)\<lparr>item_idx := i\<rparr>) ?is"
  have res: "file_reader fs filename indices limit = Inr ?items"
    using assms by (rule file_reader_closed)
  have idx: "map item_idx ?items = ?is"
    by (simp add: comp_def)
  have "sorted_wrt (<) ?is"
    by (rule sorted_wrt_filter) (simp add: sorted_wrt_upt)
  then have srt: "sorted_wrt (<) (map item_idx ?items)"
    by (simp only: idx)
  have each: "\<forall>it\<in>set ?items.
                 item_idx it < length ds
               \<and> it = (ds ! item_idx it)\<lparr>item_idx := item_idx it\<rparr>
               \<and> (\<forall>l. limit = Some l \<longrightarrow> int (item_idx it) < l)
               \<and> (\<forall>S. indices = Some S \<longrightarrow> item_idx it \<in> S)
               \<and> item_status it \<in> {200, 404}"
    by (auto simp: kept_def wanted_def below_def)
  from res srt each show ?thesis by blast
qed

lemma ex_fs_pages: "ex_fs ''pages.pickle'' = Some ex_dataset"
  by (simp add: ex_fs_def)

lemma ex_file_reader_run: "file_reader ex_fs ''pages.pickle'' (Some {1, 2, 3}) (Some 3)
         = Inr [(ex_item ''http://www.example.com/gone'' 404 ''not found'')\<lparr>item_idx := 2\<rparr>]"
  by (simp add: file_reader_def ex_fs_def ex_dataset_def pickle_stream_reader_def enumerate_eq_zip upt_rec ex_item_def)

theorem file_reader_yields_witness:
  "ex_fs ''pages.pickle'' = Some ex_dataset
   \<and> file_reader ex_fs ''pages.pickle'' (Some {1, 2, 3}) (Some 3)
         = Inr [(ex_item ''http://www.example.com/gone'' 404 ''not found'')\<lparr>item_idx := 2\<rparr>]
   \<and> (\<exists>items. file_reader ex_fs ''pages.pickle'' (Some {1, 2, 3}) (Some 3) = Inr items
           \<and> sorted_wrt (<) (map item_idx items)
           \<and> (\<forall>it\<in>set items.
                 item_idx it < length ex_dataset
               \<and> it = (ex_dataset ! item_idx it)\<lparr>item_idx := item_idx it\<rparr>
               \<and> int (item_idx it) < 3
               \<and> item_idx it \<in> {1, 2, 3}
               \<and> item_status it \<in> {200, 404}))"
proof -
  from ex_fs_pages
  have "\<exists>items. file_reader ex_fs ''pages.pickle'' (Some {1, 2, 3}) (Some 3) = Inr items
           \<and> sorted_wrt (<) (map item_idx items)
           \<and> (\<forall>it\<in>set items.
                 item_idx it < length ex_dataset
               \<and> it = (ex_dataset ! item_idx it)\<lparr>item_idx := item_idx it\<rparr>
               \<and> (\<forall>l. Some 3 = Some l \<longrightarrow> int (item_idx it) < l)
               \<and> (\<forall>S. Some {1, 2, 3} = Some S \<longrightarrow> item_idx it \<in> S)
               \<and> item_status it \<in> {200, 404})"
    by (rule file_reader_yields)
  then have "\<exists>items. file_reader ex_fs ''pages.pickle'' (Some {1, 2, 3}) (Some 3) = Inr items
           \<and> sorted_wrt (<) (map item_idx items)
           \<and> (\<forall>it\<in>set items.
                 item_idx it < length ex_dataset
               \<and> it = (ex_dataset ! item_idx it)\<lparr>item_idx := item_idx it\<rparr>
               \<and> int (item_idx it) < 3
               \<and> item_idx it \<in> {1, 2, 3}
               \<and> item_status it \<in> {200, 404})"
    by (simp only: option.inject simp_thms)
  with ex_fs_pages ex_file_reader_run show ?thesis
    by (intro conjI)
qed

text \<open>
  Claim C9. Two passes of \<^verbatim>\<open>file_reader\<close> without a limit over the same file name
  with the same index set, made in two states of the file system that hold the same
  dataset under that name, both succeed and yield the same sequence of \<^verbatim>\<open>idx\<close>
  values in the same order: the positions of the wanted items of status 200 or 404.
\<close>

theorem file_reader_index_stability:
  assumes "fs1 filename = Some ds" and "fs2 filename = Some ds"
  shows "\<exists>xs ys. file_reader fs1 filename indices None = Inr xs
           \<and> file_reader fs2 filename indices None = Inr ys
           \<and> map item_idx xs = map item_idx ys
           \<and> map item_idx xs
               = filter (\<lambda>i. wanted indices i \<and> item_status (ds ! i) \<in> {200, 404})
                   [0..<length ds]"
proof -
  let ?items = "map (\<lambda>i. (ds ! i)\<lparr>item_idx := i\<rparr>) (filter (kept ds indices None) [0..<length ds])"
  have 1: "file_reader fs1 filename indices None = Inr ?items"
    using assms(1) by (rule file_reader_closed)
  have 2: "file_reader fs2 filename indices None = Inr ?items"
    using assms(2) by (rule file_reader_closed)
  have "map item_idx ?items
      = filter (\<lambda>i. wanted indices i \<and> item_status (ds ! i) \<in> {200, 404}) [0..<length ds]"
    by (simp add: comp_def kept_def[abs_def] below_def)
  with 1 2 show ?thesis by blast
qed

theorem file_reader_index_stability_witness:
  "ex_fs ''pages.pickle'' = Some ex_dataset
   \<and> (ex_fs(''other.pickle'' \<mapsto> [])) ''pages.pickle'' = Some ex_dataset
   \<and> (\<exists>xs ys. file_reader ex_fs ''pages.pickle'' None None = Inr xs
           \<and> file_reader (ex_fs(''other.pickle'' \<mapsto> [])) ''pages.pickle'' None None = Inr ys
           \<and> map item_idx xs = map item_idx ys
           \<and> map item_idx xs = [0, 2, 3])"
proof -
  have other: "(ex_fs(''other.pickle'' \<mapsto> [])) ''pages.pickle'' = Some ex_dataset"
    by (simp add: ex_fs_def)
  have idxs: "filter (\<lambda>i. wanted None i \<and> item_status (ex_dataset ! i) \<in> {200, 404})
                [0..<length ex_dataset] = [0, 2, 3]"
    by (simp add: wanted_def ex_dataset_def ex_item_def upt_rec)
  from file_reader_index_stability[of ex_fs "''pages.pickle''" ex_dataset
      "ex_fs(''other.pickle'' \<mapsto> [])" None] ex_fs_pages other
  have "\<exists>xs ys. file_reader ex_fs ''pages.pickle'' None None = Inr xs
           \<and> file_reader (ex_fs(''other.pickle'' \<mapsto> [])) ''pages.pickle'' None None = Inr ys
           \<and> map item_idx xs = map item_idx ys
           \<and> map item_idx xs = [0, 2, 3]"
    by (simp only: idxs simp_thms)
  with ex_fs_pages other show ?thesis
    by (intro conjI)
qed

section \<open>Resolving logical ids\<close>

lemma length_filter_enumerate:
  "length (filter (\<lambda>(idx, _). int idx \<in> S) (enumerate 0 urls))
     = card {i. i < length urls \<and> int i \<in> S}"
proof -
  have eq: "(\<lambda>(idx, _). int idx \<in> S) = (\<lambda>i. int i \<in> S) \<circ> fst"
    by (auto simp: fun_eq_iff)
  have "length (filter (\<lambda>(idx, _). int idx \<in> S) (enumerate 0 urls))
      = length (map fst (filter ((\<lambda>i. int i \<in> S) \<circ> fst) (enumerate 0 urls)))"
    by (simp add: eq)
  also have "\<dots> = length (filter (\<lambda>i. int i \<in> S) (map fst (enumerate 0 urls)))"
    by (simp only: filter_map)
  also have "\<dots> = length (filter (\<lambda>i. int i \<in> S) [0..<length urls])"
    by simp
  also have "\<dots> = card (set (filter (\<lambda>i. int i \<in> S) [0..<length urls]))"
    by (rule distinct_card[symmetric]) simp
  also have "set (filter (\<lambda>i. int i \<in> S) [0..<length urls])
      = {i. i < length urls \<and> int i \<in> S}"
    by auto
  finally show ?thesis .
qed

lemma card_positions_eq:
  assumes "finite S" "card {i. i < n \<and> int i \<in> S} = card S"
  shows "\<forall>x\<in>S. 0 \<le> x \<and> x < int n"
proof -
  have sub: "int ` {i. i < n \<and> int i \<in> S} \<subseteq> S" by auto
  have "card (int ` {i. i < n \<and> int i \<in> S}) = card S"
    using assms(2) by (simp add: card_image)
  with sub assms(1) have "int ` {i. i < n \<and> int i \<in> S} = S"
    by (simp add: card_subset_eq)
  then have "\<forall>x\<in>S. \<exists>i. i < n \<and> x = int i"
    by blast
  then show ?thesis by auto
qed

lemma to_data_idx_cases:
  "to_data_idx indices urls =
     (if card {i. i < length urls \<and> int i \<in> set indices} = card (set indices)
      then Inr (map (\<lambda>(idx, (data_idx, _)). data_idx)
                 (filter (\<lambda>(idx, _). int idx \<in> set indices) (enumerate 0 urls)))
      else Inl AssertionError)"
  by (simp add: to_data_idx_def Let_def length_filter_enumerate length_remdups_card_conv)

text \<open>
  Claim C2. \<^verbatim>\<open>to_data_idx\<close> either returns a list with exactly as many entries as
  there are distinct requested ids, or fails its assertion; it never returns a shorter
  list. Whenever some requested id is not a position of \<^verbatim>\<open>urls\<close> (it is negative,
  or at least \<^verbatim>\<open>len(urls)\<close>), the assertion fails.
\<close>

theorem to_data_idx_strict:
  "(case to_data_idx indices urls of
      Inr result \<Rightarrow> length result = card (set indices)
    | Inl e \<Rightarrow> e = AssertionError)
   \<and> ((\<exists>x\<in>set indices. x < 0 \<or> int (length urls) \<le> x)
        \<longrightarrow> to_data_idx indices urls = Inl AssertionError)"
proof (cases "card {i. i < length urls \<and> int i \<in> set indices} = card (set indices)")
  case True
  then have "\<forall>x\<in>set indices. 0 \<le> x \<and> x < int (length urls)"
    using card_positions_eq[of "set indices" "length urls"] by simp
  then have no_missing: "\<not> (\<exists>x\<in>set indices. x < 0 \<or> int (length urls) \<le> x)"
    by auto
  from True have "to_data_idx indices urls
      = Inr (map (\<lambda>(idx, (data_idx, _)). data_idx)
              (filter (\<lambda>(idx, _). int idx \<in> set indices) (enumerate 0 urls)))"
    by (simp add: to_data_idx_cases)
  with True no_missing show ?thesis
    by (simp add: length_filter_enumerate)
next
  case False
  then show ?thesis by (simp add: to_data_idx_cases)
qed

theorem to_data_idx_strict_witness:
  "to_data_idx [0, 2, 2] [(5, ''a''), (7, ''b''), (9, ''c'')] = Inr [5, 9]
   \<and> to_data_idx [0, 3] [(5, ''a''), (7, ''b''), (9, ''c'')] = Inl AssertionError"
proof -
  have missing:
    "\<exists>x\<in>set [0, 3 :: int]. x < 0 \<or> int (length [(5::nat, ''a''), (7, ''b''), (9, ''c'')]) \<le> x"
    by simp
  have "to_data_idx [0, 3] [(5, ''a''), (7, ''b''), (9, ''c'')] = Inl AssertionError"
    using to_data_idx_strict[of "[0, 3]" "[(5, ''a''), (7, ''b''), (9, ''c'')]"] missing
    by blast
  moreover have "to_data_idx [0, 2, 2] [(5, ''a''), (7, ''b''), (9, ''c'')] = Inr [5, 9]"
    by code_simp
  ultimately show ?thesis by simp
qed

section \<open>The text featurizer\<close>

lemma in_class_word: "W CHR ''_'' \<Longrightarrow> in_class W c = W c"
  by (auto simp: in_class_def)

lemma star_boundary_run:
  "W CHR ''_'' \<Longrightarrow> W prev \<Longrightarrow> star_boundary W prev s = Some (length (takeWhile W s))"
proof (induction s arbitrary: prev)
  case Nil
  then show ?case by (simp add: word_boundary_def)
next
  case (Cons c cs)
  show ?case
  proof (cases "W c")
    case True
    with Cons show ?thesis by (simp add: in_class_word)
  next
    case False
    with Cons.prems show ?thesis by (simp add: in_class_word word_boundary_def)
  qed
qed

lemma match_token_inside:
  "W CHR ''_'' \<Longrightarrow> is_w W prev \<Longrightarrow> match_token W prev s = None"
  by (cases s) (auto simp: match_token_def word_boundary_def is_w_def in_class_word
      split: option.splits list.splits)

lemma match_token_nonword:
  "W CHR ''_'' \<Longrightarrow> \<not> W c \<Longrightarrow> match_token W prev (c # cs) = None"
  by (auto simp: match_token_def in_class_word split: list.splits)

lemma match_token_run:
  assumes "W CHR ''_''" "\<not> is_w W prev" "W c"
  shows "match_token W prev (c # cs) =
           (if takeWhile W cs = [] then None else Some (length (takeWhile W (c # cs))))"
proof (cases cs)
  case Nil
  with assms show ?thesis by (simp add: match_token_def)
next
  case (Cons d ds)
  have b: "word_boundary W prev (c # cs)"
    using assms by (auto simp: word_boundary_def is_w_def split: option.splits)
  show ?thesis
  proof (cases "W d")
    case True
    with assms b Cons show ?thesis
      by (simp add: match_token_def in_class_word star_boundary_run)
  next
    case False
    with assms b Cons show ?thesis
      by (simp add: match_token_def in_class_word)
  qed
qed

lemma spec_tokens_nonword: "\<not> W c \<Longrightarrow> spec_tokens W (c # cs) = spec_tokens W cs"
  by (simp add: spec_tokens_def)

lemma spec_tokens_run:
  "W c \<Longrightarrow> spec_tokens W (c # cs) =
     (if takeWhile W cs = [] then spec_tokens W (dropWhile W cs)
      else takeWhile W (c # cs) # spec_tokens W (dropWhile W cs))"
  by (auto simp: spec_tokens_def Suc_le_eq)

lemma findall_token_spec:
  "W CHR ''_'' \<Longrightarrow>
   findall_token W prev s =
     (if is_w W prev then spec_tokens W (dropWhile W s) else spec_tokens W s)"
proof (induction W prev s rule: findall_token.induct)
  case (1 W prev)
  show ?case by (simp add: spec_tokens_def)
next
  case (2 W prev c cs)
  note us = \<open>W CHR ''_''\<close>
  show ?case
  proof (cases "is_w W prev")
    case True
    then have m: "match_token W prev (c # cs) = None"
      using us by (simp add: match_token_inside)
    from "2.IH"(1)[OF m us] m True show ?thesis
      by (simp add: is_w_def spec_tokens_nonword)
  next
    case outside: False
    show ?thesis
    proof (cases "W c")
      case False
      then have m: "match_token W prev (c # cs) = None"
        using us by (simp add: match_token_nonword)
      from "2.IH"(1)[OF m us] m False outside show ?thesis
        by (simp add: is_w_def spec_tokens_nonword)
    next
      case True
      show ?thesis
      proof (cases "takeWhile W cs = []")
        case single: True
        then have m: "match_token W prev (c # cs) = None"
          using us outside True by (simp add: match_token_run)
        from "2.IH"(1)[OF m us] m True outside single show ?thesis
          by (simp add: is_w_def spec_tokens_run)
      next
        case longer: False
        let ?r = "takeWhile W (c # cs)"
        let ?n = "length ?r"
        have m: "match_token W prev (c # cs) = Some ?n"
          using us outside True longer by (simp add: match_token_run)
        have tk: "take ?n (c # cs) = ?r"
          by (rule takeWhile_eq_take[symmetric])
        have dr: "drop ?n (c # cs) = dropWhile W cs"
          using True by (simp add: dropWhile_eq_drop[symmetric])
        have lt: "?n - 1 < ?n"
          using True by simp
        have "?r ! (?n - 1) \<in> set ?r"
          using lt by (rule nth_mem)
        moreover have "?r ! (?n - 1) = (c # cs) ! (?n - 1)"
          using lt by (rule takeWhile_nth)
        ultimately have "(c # cs) ! (?n - 1) \<in> set ?r"
          by (simp only:)
        then have lastw: "W ((c # cs) ! (?n - 1))"
          by (rule set_takeWhileD[THEN conjunct2])
        from "2.IH"(2)[OF m us] have
          "findall_token W (Some ((c # cs) ! (?n - 1))) (dropWhile W cs)
             = spec_tokens W (dropWhile W cs)"
          using lastw by (simp only: dr) (simp add: is_w_def)
        with m tk dr True outside longer show ?thesis
          by (simp add: spec_tokens_run del: takeWhile.simps)
      qed
    qed
  qed
qed

text \<open>
  Claim C6. For every text, \<^verbatim>\<open>tokenize\<close> returns exactly the maximal runs of word
  characters that have at least two characters, in order of occurrence; the underscore
  being a word character, as it is in \<^verbatim>\<open>\w\<close>. On \<^verbatim>\<open>"a1 _b2 c"\<close> that is
  \<^verbatim>\<open>a1\<close> and \<^verbatim>\<open>_b2\<close>, without the single character \<^verbatim>\<open>c\<close>, and on the empty
  text it is the empty list.
\<close>

theorem tokenize_word_runs:
  "(W CHR ''_'' \<longrightarrow> tokenize W s = spec_tokens W s)
   \<and> tokenize ascii_word ''a1 _b2 c'' = [''a1'', ''_b2'']
   \<and> tokenize ascii_word '''' = []"
proof (intro conjI impI)
  assume "W CHR ''_''"
  then show "tokenize W s = spec_tokens W s"
    by (simp add: tokenize_def findall_token_spec is_w_def)
next
  show "tokenize ascii_word ''a1 _b2 c'' = [''a1'', ''_b2'']"
    by code_simp
next
  show "tokenize ascii_word '''' = []"
    by (simp add: tokenize_def)
qed

theorem tokenize_word_runs_witness:
  "ascii_word CHR ''_''
   \<and> tokenize ascii_word ''x yy zzz_ 9 -- ab'' = spec_tokens ascii_word ''x yy zzz_ 9 -- ab''
   \<and> tokenize ascii_word ''x yy zzz_ 9 -- ab'' = [''yy'', ''zzz_'', ''ab'']"
proof -
  have us: "ascii_word CHR ''_''"
    by (simp add: ascii_word_def)
  have "tokenize ascii_word ''x yy zzz_ 9 -- ab'' = spec_tokens ascii_word ''x yy zzz_ 9 -- ab''"
    using tokenize_word_runs[of ascii_word "''x yy zzz_ 9 -- ab''"] us by blast
  moreover have "tokenize ascii_word ''x yy zzz_ 9 -- ab'' = [''yy'', ''zzz_'', ''ab'']"
    by code_simp
  ultimately show ?thesis using us by (intro conjI)
qed


lemma foldl_extend:
  "foldl (\<lambda>parts (tag, block_text). parts @ f tag block_text) acc bs
     = acc @ concat (map (\<lambda>(tag, block_text). f tag block_text) bs)"
  by (induction bs arbitrary: acc) (auto simp: case_prod_beta)

lemma tokenize_Foo: "tokenize ascii_word ''Foo'' = [''Foo'']"
  by code_simp

lemma tokenize_Bar: "tokenize ascii_word ''Bar'' = [''Bar'']"
  by code_simp

text \<open>
  Claim C5. The text of an item is the raw \<^verbatim>\<open>text\<close> field, then, when the title is
  not empty, every token of the title with the title marker in front, then for every
  block in order every token of its text with the marker of its tag in front, joined by
  single spaces. For a page with title \<^verbatim>\<open>Foo\<close> and the block \<^verbatim>\<open>("h1", "Bar")\<close>
  it is the body followed by \<^verbatim>\<open>__title__Foo\<close> and \<^verbatim>\<open>__h1__Bar\<close>; tokenized
  again, these are tokens of their own, different from the tokens \<^verbatim>\<open>foo\<close> and
  \<^verbatim>\<open>bar\<close> of the body.
\<close>

theorem item_to_text_parts:
  "item_to_text W it =
     join '' ''
       ([item_text it]
        @ (case item_title it of
             None \<Rightarrow> []
           | Some t \<Rightarrow> if t = [] then [] else map (\<lambda>w. ''__title__'' @ w) (tokenize W t))
        @ concat (map (\<lambda>(tag, block_text).
                         map (\<lambda>w. ''__'' @ tag @ ''__'' @ w) (tokenize W block_text))
                    (case item_blocks it of None \<Rightarrow> [] | Some bs \<Rightarrow> bs)))
   \<and> item_to_text ascii_word (ex_page body) = body @ '' __title__Foo __h1__Bar''
   \<and> tokenize ascii_word (item_to_text ascii_word (ex_page ''foo bar''))
       = [''foo'', ''bar'', ''__title__Foo'', ''__h1__Bar'']"
proof (intro conjI)
  show "item_to_text W it =
     join '' ''
       ([item_text it]
        @ (case item_title it of
             None \<Rightarrow> []
           | Some t \<Rightarrow> if t = [] then [] else map (\<lambda>w. ''__title__'' @ w) (tokenize W t))
        @ concat (map (\<lambda>(tag, block_text).
                         map (\<lambda>w. ''__'' @ tag @ ''__'' @ w) (tokenize W block_text))
                    (case item_blocks it of None \<Rightarrow> [] | Some bs \<Rightarrow> bs)))"
    unfolding item_to_text_def Let_def foldl_extend
    by (simp split: option.splits)
next
  show body: "item_to_text ascii_word (ex_page body) = body @ '' __title__Foo __h1__Bar''" for body
    by (simp add: item_to_text_def ex_page_def tokenize_Foo tokenize_Bar)
  show "tokenize ascii_word (item_to_text ascii_word (ex_page ''foo bar''))
       = [''foo'', ''bar'', ''__title__Foo'', ''__h1__Bar'']"
    unfolding body by code_simp
qed

theorem item_to_text_parts_witness:
  "item_to_text ascii_word (ex_item ''http://a.example.com/1'' 200 ''hello world'')
     = ''hello world''
   \<and> item_to_text ascii_word (ex_page ''not found'') = ''not found __title__Foo __h1__Bar''"
proof -
  have "item_to_text ascii_word (ex_item ''http://a.example.com/1'' 200 ''hello world'')
     = ''hello world''"
    by (subst item_to_text_parts[THEN conjunct1]) (simp add: ex_item_def)
  moreover have "item_to_text ascii_word (ex_page ''not found'')
     = ''not found __title__Foo __h1__Bar''"
    using item_to_text_parts[of ascii_word "ex_page ''not found''" "''not found''",
          THEN conjunct2, THEN conjunct1]
    by simp
  ultimately show ?thesis by (intro conjI)
qed

section \<open>The incremental trainer\<close>

lemma batches_single: "lst \<noteq> [] \<Longrightarrow> length lst \<le> n \<Longrightarrow> batches lst n = [lst]"
  by (subst batches.simps) (cases lst; auto simp: batches.simps[of "[]"])

lemma train_batches_single:
  assumes "data (Some b) = Inr items" "items \<noteq> []"
  shows "\<exists>c'. train_batches W data classes c [b] = Inr c' \<and> length c' = length c + 1"
  using assms by (simp add: get_xy_def partial_fit_def)

lemma train_epochs_state:
  "train_epochs W shuffle data classes batch_size n st = Inr st' \<Longrightarrow>
   (ts_train_idx st', ts_rng st') = shuffle_times shuffle n (ts_train_idx st, ts_rng st)"
proof (induction n arbitrary: st)
  case 0
  then show ?case by simp
next
  case (Suc n)
  obtain t r where sh: "shuffle (ts_rng st) (ts_train_idx st) = (t, r)"
    by (cases "shuffle (ts_rng st) (ts_train_idx st)")
  from Suc.prems sh obtain c where
    "train_epochs W shuffle data classes batch_size n
       \<lparr>ts_clf = c, ts_train_idx = t, ts_rng = r\<rparr> = Inr st'"
    by (auto split: sum.splits)
  from Suc.IH[OF this] sh show ?case
    by (cases st) simp
qed

lemma shuffle_times_mset:
  assumes "\<forall>r xs. mset (fst (shuffle r xs)) = mset xs"
  shows "mset (fst (shuffle_times shuffle n (xs, r))) = mset xs"
proof (induction n arbitrary: xs r)
  case 0
  show ?case by simp
next
  case (Suc n)
  obtain t r' where sh: "shuffle r xs = (t, r')" by (cases "shuffle r xs")
  with assms have "mset t = mset xs" by (metis fst_conv)
  with Suc.IH[of t r'] sh show ?case by simp
qed

lemma train_epochs_small:
  assumes perm: "\<forall>r xs. mset (fst (shuffle r xs)) = mset xs"
      and fetch: "\<forall>indices. mset indices = M \<longrightarrow>
                    (\<exists>items. data (Some indices) = Inr items \<and> items \<noteq> [])"
      and same: "mset (ts_train_idx st) = M"
      and nonempty: "ts_train_idx st \<noteq> []"
      and small: "length (ts_train_idx st) < batch_size"
  shows "\<exists>st'. train_epochs W shuffle data classes batch_size n st = Inr st'
           \<and> length (ts_clf st') = length (ts_clf st) + n"
  using same nonempty small
proof (induction n arbitrary: st)
  case 0
  show ?case by simp
next
  case (Suc n)
  obtain t r where sh: "shuffle (ts_rng st) (ts_train_idx st) = (t, r)"
    by (cases "shuffle (ts_rng st) (ts_train_idx st)")
  with perm have ms: "mset t = mset (ts_train_idx st)" by (metis fst_conv)
  then have len: "length t = length (ts_train_idx st)" by (rule mset_eq_length)
  from ms Suc.prems(2) have ne: "t \<noteq> []" by auto
  from len ne Suc.prems(3) have b: "batches t batch_size = [t]"
    by (simp add: batches_single)
  from fetch ms Suc.prems(1) obtain items where
    "data (Some t) = Inr items" "items \<noteq> []"
    by auto
  with train_batches_single[of data t items W classes "ts_clf st"]
  obtain c where c: "train_batches W data classes (ts_clf st) [t] = Inr c"
    and lc: "length c = length (ts_clf st) + 1" by auto
  from Suc.IH[of "\<lparr>ts_clf = c, ts_train_idx = t, ts_rng = r\<rparr>"] ne len ms Suc.prems
  obtain st' where
    "train_epochs W shuffle data classes batch_size n \<lparr>ts_clf = c, ts_train_idx = t, ts_rng = r\<rparr> = Inr st'"
    "length (ts_clf st') = length c + n" by auto
  with sh b c lc show ?case
    by simp
qed

lemma mset_rotate1: "mset (rotate1 xs) = mset xs"
  by (cases xs) simp_all

lemma mset_rotate: "mset (rotate n xs) = mset xs"
  by (induction n) (simp_all add: mset_rotate1)

lemma ex_shuffle_perm: "\<forall>r xs. mset (fst (ex_shuffle r xs)) = mset xs"
  by (simp add: ex_shuffle_def mset_rotate del: rotate_Suc)

lemma ex_data_fetch:
  "\<forall>indices. mset indices = mset (ts_train_idx ex_state) \<longrightarrow>
     (\<exists>items. ex_data (Some indices) = Inr items \<and> items \<noteq> [])"
proof (intro allI impI)
  fix indices :: "nat list"
  assume "mset indices = mset (ts_train_idx ex_state)"
  then have "set indices = set (ts_train_idx ex_state)"
    by (rule mset_eq_setD)
  then have s: "set indices = {0, 2}"
    by (simp add: ex_state_def)
  have "kept ex_dataset (Some {0, 2}) None 0"
    by (simp add: kept_def wanted_def below_def ex_dataset_def ex_item_def)
  then have "filter (kept ex_dataset (Some {0, 2}) None) [0..<length ex_dataset] \<noteq> []"
    by (auto simp: filter_empty_conv ex_dataset_def)
  then show "\<exists>items. ex_data (Some indices) = Inr items \<and> items \<noteq> []"
    by (simp add: ex_data_def main_data_def main_reader_def data_iter_def s
        file_reader_closed[of ex_fs _ ex_dataset] ex_fs_pages)
qed

lemma ex_train_run:
  "train_clf ascii_word ex_shuffle ex_data ex_state [False, True] 2 5000 =
     Inr \<lparr>ts_clf =
           [([''hello world'', ''not found''], [False, True], [False, True]),
            ([''hello world'', ''not found''], [False, True], [False, True])],
          ts_train_idx = [2, 0], ts_rng = 2\<rparr>"
  by code_simp

lemma ex_check_run:
  "check_class_weights ex_shuffle ex_data [0, 2, 3] 0 = Inr ([False, True, False], [2, 3, 0], 1)"
  by code_simp

lemma ex_train_run_empty:
  "train_clf ascii_word ex_shuffle ex_data (ex_state\<lparr>ts_train_idx := [1]\<rparr>) [False, True] 2 5000
     = Inl ValueError"
  by code_simp

text \<open>
  Claim C7, as amended. When \<^verbatim>\<open>train_clf\<close> is called with a training index list
  that is not empty and shorter than one batch, and the data access yields at least one
  item for these indices, it completes without error and performs exactly one
  \<^verbatim>\<open>partial_fit\<close> update in each epoch: \<^verbatim>\<open>n_epochs\<close> updates in all, two with
  the default \<^verbatim>\<open>n_epochs=2\<close>.
\<close>

theorem train_clf_one_update_per_epoch:
  assumes "\<forall>r xs. mset (fst (shuffle r xs)) = mset xs"
      and "\<forall>indices. mset indices = mset (ts_train_idx st) \<longrightarrow>
             (\<exists>items. data (Some indices) = Inr items \<and> items \<noteq> [])"
      and "ts_train_idx st \<noteq> []"
      and "length (ts_train_idx st) < batch_size"
  shows "\<exists>st'. train_clf W shuffle data st classes n_epochs batch_size = Inr st'
           \<and> length (ts_clf st') = length (ts_clf st) + n_epochs"
  unfolding train_clf_def using assms(1,2) refl assms(3,4) by (rule train_epochs_small)

theorem train_clf_one_update_per_epoch_witness:
  "(\<forall>r xs. mset (fst (ex_shuffle r xs)) = mset xs)
   \<and> ts_train_idx ex_state \<noteq> []
   \<and> length (ts_train_idx ex_state) < 5000
   \<and> (\<exists>items. ex_data (Some (ts_train_idx ex_state)) = Inr items \<and> items \<noteq> [])
   \<and> (\<exists>st'. train_clf ascii_word ex_shuffle ex_data ex_state [False, True] 2 5000 = Inr st'
           \<and> length (ts_clf st') = length (ts_clf ex_state) + 2)"
proof -
  have ne: "ts_train_idx ex_state \<noteq> []" and small: "length (ts_train_idx ex_state) < 5000"
    by (simp_all add: ex_state_def)
  have here: "\<exists>items. ex_data (Some (ts_train_idx ex_state)) = Inr items \<and> items \<noteq> []"
    using ex_data_fetch by blast
  from train_clf_one_update_per_epoch[OF ex_shuffle_perm ex_data_fetch ne small]
  have "\<exists>st'. train_clf ascii_word ex_shuffle ex_data ex_state [False, True] 2 5000 = Inr st'
           \<and> length (ts_clf st') = length (ts_clf ex_state) + 2"
    by blast
  with ex_shuffle_perm ne small here show ?thesis
    by (intro conjI)
qed

text \<open>
  With the defaults \<^verbatim>\<open>n_epochs=2\<close> and \<^verbatim>\<open>batch_size=5000\<close> and the two training
  indices 0 and 2, the classifier receives two updates, not one. With the single training
  index 1, the index of an item of status 500 that the reader does not yield, the batch
  has no sample and the call ends in the \<^verbatim>\<open>ValueError\<close> of \<^verbatim>\<open>partial_fit\<close>.
\<close>

theorem train_clf_one_update_counterexample:
  "ts_train_idx ex_state \<noteq> []
   \<and> length (ts_train_idx ex_state) < 5000
   \<and> (\<exists>st'. train_clf ascii_word ex_shuffle ex_data ex_state [False, True] 2 5000 = Inr st'
           \<and> length (ts_clf st') = length (ts_clf ex_state) + 2)
   \<and> \<not> (\<exists>st'. train_clf ascii_word ex_shuffle ex_data ex_state [False, True] 2 5000 = Inr st'
           \<and> length (ts_clf st') = length (ts_clf ex_state) + 1)
   \<and> ts_train_idx (ex_state\<lparr>ts_train_idx := [1]\<rparr>) \<noteq> []
   \<and> length (ts_train_idx (ex_state\<lparr>ts_train_idx := [1]\<rparr>)) < 5000
   \<and> train_clf ascii_word ex_shuffle ex_data (ex_state\<lparr>ts_train_idx := [1]\<rparr>)
         [False, True] 2 5000 = Inl ValueError"
proof (intro conjI)
  show "ts_train_idx ex_state \<noteq> []" "length (ts_train_idx ex_state) < 5000"
    by (simp_all add: ex_state_def)
  show "\<exists>st'. train_clf ascii_word ex_shuffle ex_data ex_state [False, True] 2 5000 = Inr st'
           \<and> length (ts_clf st') = length (ts_clf ex_state) + 2"
    by (simp add: ex_train_run) (simp add: ex_state_def)
  show "\<not> (\<exists>st'. train_clf ascii_word ex_shuffle ex_data ex_state [False, True] 2 5000 = Inr st'
           \<and> length (ts_clf st') = length (ts_clf ex_state) + 1)"
    by (simp add: ex_train_run) (simp add: ex_state_def)
  show "ts_train_idx (ex_state\<lparr>ts_train_idx := [1]\<rparr>) \<noteq> []"
    "length (ts_train_idx (ex_state\<lparr>ts_train_idx := [1]\<rparr>)) < 5000"
    by simp_all
  show "train_clf ascii_word ex_shuffle ex_data (ex_state\<lparr>ts_train_idx := [1]\<rparr>)
         [False, True] 2 5000 = Inl ValueError"
    by (rule ex_train_run_empty)
qed

text \<open>
  Claim C10. \<^verbatim>\<open>train_clf\<close> and \<^verbatim>\<open>check_class_weights\<close> mutate the caller's
  \<^verbatim>\<open>train_idx\<close>: after \<^verbatim>\<open>train_clf\<close> it is what \<^verbatim>\<open>n_epochs\<close> shuffles in a
  row make of it, after \<^verbatim>\<open>check_class_weights\<close> what one shuffle makes of it. A
  shuffle being a permutation, it holds the same multiset of indices afterwards; and it
  is not always left as it was, as the runs with two epochs on \<^verbatim>\<open>[0, 2]\<close> and with
  \<^verbatim>\<open>[0, 2, 3]\<close> show.
\<close>

theorem train_idx_shuffled_in_place:
  "(train_clf W shuffle data st classes n_epochs batch_size = Inr st' \<longrightarrow>
      (ts_train_idx st', ts_rng st') = shuffle_times shuffle n_epochs (ts_train_idx st, ts_rng st)
      \<and> ((\<forall>r xs. mset (fst (shuffle r xs)) = mset xs)
           \<longrightarrow> mset (ts_train_idx st') = mset (ts_train_idx st)))
   \<and> (check_class_weights shuffle data train_idx rng = Inr (ys, train_idx', rng') \<longrightarrow>
      (train_idx', rng') = shuffle rng train_idx
      \<and> ((\<forall>r xs. mset (fst (shuffle r xs)) = mset xs)
           \<longrightarrow> mset train_idx' = mset train_idx))
   \<and> (\<exists>st'. train_clf ascii_word ex_shuffle ex_data ex_state [False, True] 2 5000 = Inr st'
         \<and> ts_train_idx st' \<noteq> ts_train_idx ex_state)
   \<and> (\<exists>ys t' r'. check_class_weights ex_shuffle ex_data [0, 2, 3] 0 = Inr (ys, t', r')
         \<and> t' \<noteq> [0, 2, 3])"
proof (intro conjI impI)
  assume run: "train_clf W shuffle data st classes n_epochs batch_size = Inr st'"
  then show eq: "(ts_train_idx st', ts_rng st')
      = shuffle_times shuffle n_epochs (ts_train_idx st, ts_rng st)"
    unfolding train_clf_def by (rule train_epochs_state)
  assume perm: "\<forall>r xs. mset (fst (shuffle r xs)) = mset xs"
  from shuffle_times_mset[OF perm, of n_epochs "ts_train_idx st" "ts_rng st"] eq
  show "mset (ts_train_idx st') = mset (ts_train_idx st)"
    by (metis fst_conv)
next
  assume run: "check_class_weights shuffle data train_idx rng = Inr (ys, train_idx', rng')"
  then show eq: "(train_idx', rng') = shuffle rng train_idx"
    by (auto simp: check_class_weights_def split: prod.splits sum.splits)
  assume perm: "\<forall>r xs. mset (fst (shuffle r xs)) = mset xs"
  with eq show "mset train_idx' = mset train_idx"
    by (metis fst_conv)
next
  show "\<exists>st'. train_clf ascii_word ex_shuffle ex_data ex_state [False, True] 2 5000 = Inr st'
         \<and> ts_train_idx st' \<noteq> ts_train_idx ex_state"
    by (simp add: ex_train_run) (simp add: ex_state_def)
next
  show "\<exists>ys t' r'. check_class_weights ex_shuffle ex_data [0, 2, 3] 0 = Inr (ys, t', r')
         \<and> t' \<noteq> [0, 2, 3]"
    by (simp add: ex_check_run)
qed

theorem train_idx_shuffled_in_place_witness:
  "(\<forall>r xs. mset (fst (ex_shuffle r xs)) = mset xs)
   \<and> (\<exists>st'. train_clf ascii_word ex_shuffle ex_data ex_state [False, True] 2 5000 = Inr st'
        \<and> ts_train_idx st' = [2, 0]
        \<and> mset (ts_train_idx st') = mset (ts_train_idx ex_state))
   \<and> check_class_weights ex_shuffle ex_data [0, 2, 3] 0 = Inr ([False, True, False], [2, 3, 0], 1)
   \<and> mset [2, 3, 0] = mset [0, 2, 3 :: nat]"
proof -
  let ?st' = "\<lparr>ts_clf =
           [([''hello world'', ''not found''], [False, True], [False, True]),
            ([''hello world'', ''not found''], [False, True], [False, True])],
          ts_train_idx = [2, 0], ts_rng = 2 :: nat\<rparr>"
  from train_idx_shuffled_in_place[of ascii_word ex_shuffle ex_data ex_state "[False, True]" 2 5000 ?st']
    ex_train_run ex_shuffle_perm
  have a: "mset (ts_train_idx ?st') = mset (ts_train_idx ex_state)"
    by blast
  from train_idx_shuffled_in_place[where shuffle = ex_shuffle and data = ex_data
      and train_idx = "[0, 2, 3]" and rng = 0 and ys = "[False, True, False]"
      and train_idx' = "[2, 3, 0]" and rng' = 1]
    ex_check_run ex_shuffle_perm
  have b: "mset [2, 3, 0] = mset [0, 2, 3 :: nat]"
    by blast
  from a ex_train_run have
    "\<exists>st'. train_clf ascii_word ex_shuffle ex_data ex_state [False, True] 2 5000 = Inr st'
        \<and> ts_train_idx st' = [2, 0]
        \<and> mset (ts_train_idx st') = mset (ts_train_idx ex_state)"
    by simp
  with ex_shuffle_perm ex_check_run b show ?thesis
    by (intro conjI)
qed

section \<open>The report of the driver\<close>

lemma vals_append_metric:
  "vals (append_metric al (k, v)) k' = vals al k' @ (if k' = k then [v] else [])"
  by (simp add: vals_def append_metric_def update_conv')

lemma keys_append_metric:
  "fst ` set (append_metric al (k, v)) = insert k (fst ` set al)"
  by (simp add: append_metric_def dom_update)

lemma distinct_append_metric:
  "distinct (map fst al) \<Longrightarrow> distinct (map fst (append_metric al kv))"
  by (cases kv) (simp add: append_metric_def distinct_update)

lemma foldl_append_metric:
  "vals (foldl append_metric al m) k = vals al k @ map snd (filter (\<lambda>(k', v). k' = k) m)
   \<and> fst ` set (foldl append_metric al m) = fst ` set al \<union> fst ` set m
   \<and> (distinct (map fst al) \<longrightarrow> distinct (map fst (foldl append_metric al m)))"
proof (induction m arbitrary: al)
  case Nil
  show ?case by simp
next
  case (Cons kv m)
  obtain k' v where kv: "kv = (k', v)" by (cases kv)
  from Cons[of "append_metric al (k', v)"] show ?case
    by (auto simp: kv vals_append_metric keys_append_metric distinct_append_metric)
qed

lemma foldl_collect:
  "vals (foldl (\<lambda>al m. foldl append_metric al m) al results) k = vals al k @ fold_values k results
   \<and> fst ` set (foldl (\<lambda>al m. foldl append_metric al m) al results)
       = fst ` set al \<union> metric_names results
   \<and> (distinct (map fst al)
        \<longrightarrow> distinct (map fst (foldl (\<lambda>al m. foldl append_metric al m) al results)))"
proof (induction results arbitrary: al)
  case Nil
  show ?case by (simp add: fold_values_def metric_names_def)
next
  case (Cons m results)
  from Cons[of "foldl append_metric al m"] foldl_append_metric[of al m k] show ?case
    by (auto simp: fold_values_def metric_names_def)
qed

lemma collect_metrics_entries:
  assumes "(k, vs) \<in> set (collect_metrics results)"
  shows "vs = fold_values k results"
proof -
  have "distinct (map fst (collect_metrics results))"
    using foldl_collect[of "[]" results k] by (simp add: collect_metrics_def)
  with assms have "map_of (collect_metrics results) k = Some vs"
    by simp
  then have "vals (collect_metrics results) k = vs"
    by (simp add: vals_def)
  moreover have "vals (collect_metrics results) k = fold_values k results"
    using foldl_collect[of "[]" results k] by (simp add: collect_metrics_def vals_def)
  ultimately show ?thesis by simp
qed

lemma map_fst_insort_key:
  "map fst (insort_key fst x xs) = insort (fst x) (map fst xs)"
  by (induction xs) auto

lemma map_fst_sort_key: "map fst (sort_key fst xs) = sort (map fst xs)"
  by (induction xs) (simp_all add: map_fst_insort_key)

lemma collect_metrics_keys:
  "map fst (sort_key fst (collect_metrics results)) = sorted_list_of_set (metric_names results)"
proof -
  let ?al = "collect_metrics results"
  have d: "distinct (map fst ?al)" and s: "set (map fst ?al) = metric_names results"
    using foldl_collect[of "[]" results undefined] by (simp_all add: collect_metrics_def)
  have "map fst (sort_key fst ?al) = sort (map fst ?al)"
    by (rule map_fst_sort_key)
  also have "\<dots> = sorted_list_of_set (set (map fst ?al))"
    using d by (simp only: sorted_list_of_set_sort_remdups distinct_remdups_id)
  also have "\<dots> = sorted_list_of_set (metric_names results)"
    by (simp only: s)
  finally show ?thesis .
qed

text \<open>
  Claim C8. After the metric mappings of all folds are collected, the report has one line
  for every metric name that occurs, in sorted order, and the line of a metric gives the
  arithmetic mean of its per-fold values and twice their standard deviation.
\<close>

theorem report_mean_std:
  "report results =
     map (\<lambda>k. (k, np_mean (fold_values k results), np_std (fold_values k results) * 2))
       (sorted_list_of_set (metric_names results))
   \<and> np_mean v = sum_list v / real (length v)
   \<and> np_std v * 2 = 2 * sqrt (sum_list (map (\<lambda>x. (x - np_mean v)\<^sup>2) v) / real (length v))"
proof (intro conjI)
  let ?al = "sort_key fst (collect_metrics results)"
  have "map (\<lambda>(k, v). (k, np_mean v, np_std v * 2)) ?al
      = map (\<lambda>(k, v). (k, np_mean (fold_values k results), np_std (fold_values k results) * 2)) ?al"
    by (rule map_cong) (auto dest: collect_metrics_entries)
  also have "\<dots> = map (\<lambda>k. (k, np_mean (fold_values k results), np_std (fold_values k results) * 2))
                     (map fst ?al)"
    by (simp add: comp_def case_prod_beta)
  finally show "report results =
     map (\<lambda>k. (k, np_mean (fold_values k results), np_std (fold_values k results) * 2))
       (sorted_list_of_set (metric_names results))"
    by (simp only: report_def collect_metrics_keys)
next
  show "np_mean v = sum_list v / real (length v)"
    by (simp add: np_mean_def)
next
  show "np_std v * 2 = 2 * sqrt (sum_list (map (\<lambda>x. (x - np_mean v)\<^sup>2) v) / real (length v))"
    by (simp add: np_std_def np_mean_def[of "map _ _"])
qed


lemma ex_metric_names: "sorted_list_of_set (metric_names ex_results) = [''AUC'', ''F1'']"
proof -
  have "metric_names ex_results = {''AUC'', ''F1''}"
    by (auto simp: metric_names_def ex_results_def)
  moreover have "sorted_list_of_set {''AUC'', ''F1''} = [''AUC'', ''F1'']"
    by code_simp
  ultimately show ?thesis by simp
qed

lemma ex_fold_values:
  "fold_values ''AUC'' ex_results = [3/4, 1/4]" "fold_values ''F1'' ex_results = [1/2, 1/2]"
  by (simp_all add: fold_values_def ex_results_def)

lemma sqrt_sixteenth: "sqrt (1/16) = 1/4"
  by (rule real_sqrt_unique) (simp_all add: power2_eq_square)

theorem report_mean_std_witness:
  "report ex_results = [(''AUC'', 1/2, 1/2), (''F1'', 1/2, 0)]"
proof -
  have m1: "np_mean [3/4, 1/4] = 1/2" and m2: "np_mean [1/2, 1/2] = 1/2"
    by (simp_all add: np_mean_def)
  have s1: "np_std [3/4, 1/4] * 2 = 1/2"
    by (simp add: np_std_def m1) (simp add: np_mean_def power2_eq_square sqrt_sixteenth)
  have s2: "np_std [1/2, 1/2] * 2 = 0"
    by (simp add: np_std_def m2) (simp add: np_mean_def)
  show ?thesis
    by (simp only: report_mean_std[THEN conjunct1] ex_metric_names ex_fold_values
        list.map m1 m2 s1 s2)
qed

section \<open>The folds of the driver\<close>

lemma main_data_closed:
  assumes "fs filename = Some ds"
  shows "\<exists>S. main_data fs filename limit flt indices =
           Inr (map (\<lambda>i. (ds ! i)\<lparr>item_idx := i\<rparr>) (filter (kept ds S limit) [0..<length ds]))
         \<and> (\<forall>idxs d. indices = Some idxs \<longrightarrow> wanted S d \<longrightarrow> d \<in> set idxs)
         \<and> (indices = None \<longrightarrow> S = flt)"
proof -
  let ?S = "case flt of None \<Rightarrow> map_option set indices
           | Some f \<Rightarrow> (case indices of None \<Rightarrow> Some f | Some ind \<Rightarrow> Some (set ind \<inter> f))"
  have "main_data fs filename limit flt indices =
           Inr (map (\<lambda>i. (ds ! i)\<lparr>item_idx := i\<rparr>) (filter (kept ds ?S limit) [0..<length ds]))"
    using assms by (simp add: main_data_def data_iter_def main_reader_def file_reader_closed)
  moreover have "\<forall>idxs d. indices = Some idxs \<longrightarrow> wanted ?S d \<longrightarrow> d \<in> set idxs"
    by (auto simp: wanted_def split: option.splits)
  moreover have "indices = None \<longrightarrow> ?S = flt"
    by (auto split: option.splits)
  ultimately show ?thesis by blast
qed

lemma main_data_items:
  assumes "fs filename = Some ds"
      and "main_data fs filename limit flt (Some idxs) = Inr items"
      and "it \<in> set items"
  shows "\<exists>d. d \<in> set idxs \<and> item_url it = item_url (ds ! d)"
proof -
  from main_data_closed[of fs filename ds limit flt "Some idxs"] assms(1,2)
  obtain S where items: "items = map (\<lambda>i. (ds ! i)\<lparr>item_idx := i\<rparr>) (filter (kept ds S limit) [0..<length ds])"
    and S: "\<forall>d. wanted S d \<longrightarrow> d \<in> set idxs"
    by auto
  from assms(3) items obtain d where "kept ds S limit d" "it = (ds ! d)\<lparr>item_idx := d\<rparr>"
    by auto
  with S show ?thesis
    by (auto simp: kept_def)
qed

lemma main_urls_entries:
  assumes "fs filename = Some ds"
      and "main_urls (main_data fs filename limit flt) = Inr urls"
      and "p \<in> set urls"
  shows "snd p = item_url (ds ! fst p)"
proof -
  from main_data_closed[of fs filename ds limit flt None] assms(1)
  obtain S where "main_data fs filename limit flt None =
           Inr (map (\<lambda>i. (ds ! i)\<lparr>item_idx := i\<rparr>) (filter (kept ds S limit) [0..<length ds]))"
    by blast
  with assms(2) have "urls = map (\<lambda>i. (i, item_url (ds ! i))) (filter (kept ds S limit) [0..<length ds])"
    by (auto simp: main_urls_def comp_def)
  with assms(3) show ?thesis by auto
qed

lemma resolve_map:
  "map (\<lambda>(idx, (data_idx, _)). data_idx)
     (filter (\<lambda>(idx, _). Q idx) (map (\<lambda>i. (i, urls ! i)) xs))
   = map (\<lambda>i. fst (urls ! i)) (filter Q xs)"
  by (induction xs) (auto simp: case_prod_beta)

lemma to_data_idx_positions:
  "to_data_idx (map int (filter P [0..<length urls])) urls
     = Inr (map (\<lambda>i. fst (urls ! i)) (filter P [0..<length urls]))"
proof -
  let ?n = "length urls"
  let ?sel = "filter P [0..<?n]"
  have pos: "{i. i < ?n \<and> int i \<in> set (map int ?sel)} = set ?sel"
    by auto
  have "card (set (map int ?sel)) = card (set ?sel)"
    by (simp add: card_image)
  with pos have c: "card {i. i < ?n \<and> int i \<in> set (map int ?sel)} = card (set (map int ?sel))"
    by simp
  have sel: "filter (\<lambda>i. int i \<in> set (map int ?sel)) [0..<?n] = ?sel"
    by (rule filter_cong) auto
  have "map (\<lambda>(idx, (data_idx, _)). data_idx)
        (filter (\<lambda>(idx, _). int idx \<in> set (map int ?sel)) (enumerate 0 urls))
      = map (\<lambda>i. fst (urls ! i)) ?sel"
    by (simp only: enumerate_as_map resolve_map sel)
  with c show ?thesis
    by (simp only: to_data_idx_cases if_True simp_thms)
qed


lemma LabelKFold_fold:
  "(train, test) \<in> set (LabelKFold fold_of labels n_folds) \<longleftrightarrow>
     (\<exists>f<n_folds.
        train = filter (\<lambda>i. fold_of (labels ! i) \<noteq> f) [0..<length labels]
      \<and> test = filter (\<lambda>i. fold_of (labels ! i) = f) [0..<length labels])"
  by (auto simp: LabelKFold_def)

lemma main_labels_nth:
  "i < length urls \<Longrightarrow> main_labels get_domain urls ! i = get_domain (snd (urls ! i))"
  by (simp add: main_labels_def case_prod_beta)

lemma mset_concat_filter_upt:
  "mset (concat (map (\<lambda>f. filter (\<lambda>i. g i = f) xs) [0..<K]))
     = mset (filter (\<lambda>i. g i < K) xs)"
proof (induction K)
  case 0
  show ?case by simp
next
  case (Suc K)
  have "mset (filter (\<lambda>i. g i < K) xs) + mset (filter (\<lambda>i. g i = K) xs)
      = mset (filter (\<lambda>i. g i < Suc K) xs)"
    by (rule multiset_eqI) (auto simp: less_Suc_eq)
  with Suc show ?case by simp
qed

text \<open>
  Claim C1. For every fold, the train and the test identities resolve to dataset ids, the
  data access yields their items, and no registered domain (by \<^verbatim>\<open>get_domain\<close> of the
  item's url) occurs both among the test items and among the train items; nor does one
  occur both among the test and the train identities of the url list.
\<close>

theorem folds_no_domain_leak:
  assumes "fs filename = Some ds"
      and "main_urls (main_data fs filename limit flt_indices) = Inr urls"
      and "(train, test) \<in> set (LabelKFold fold_of (main_labels get_domain urls) n_folds)"
  shows "\<exists>train_idx test_idx train_items test_items.
           to_data_idx (map int train) urls = Inr train_idx
         \<and> to_data_idx (map int test) urls = Inr test_idx
         \<and> main_data fs filename limit flt_indices (Some train_idx) = Inr train_items
         \<and> main_data fs filename limit flt_indices (Some test_idx) = Inr test_items
         \<and> (\<lambda>it. get_domain (item_url it)) ` set test_items
             \<inter> (\<lambda>it. get_domain (item_url it)) ` set train_items = {}
         \<and> (\<lambda>i. get_domain (snd (urls ! i))) ` set test
             \<inter> (\<lambda>i. get_domain (snd (urls ! i))) ` set train = {}"
proof -
  let ?labels = "main_labels get_domain urls"
  let ?data = "main_data fs filename limit flt_indices"
  have len: "length ?labels = length urls"
    by (simp add: main_labels_def)
  from assms(3) obtain f where
    train: "train = filter (\<lambda>i. fold_of (?labels ! i) \<noteq> f) [0..<length urls]" and
    test: "test = filter (\<lambda>i. fold_of (?labels ! i) = f) [0..<length urls]"
    by (auto simp: LabelKFold_fold len)
  let ?train_idx = "map (\<lambda>i. fst (urls ! i)) train"
  let ?test_idx = "map (\<lambda>i. fst (urls ! i)) test"
  have r1: "to_data_idx (map int train) urls = Inr ?train_idx"
    unfolding train by (rule to_data_idx_positions)
  have r2: "to_data_idx (map int test) urls = Inr ?test_idx"
    unfolding test by (rule to_data_idx_positions)
  from main_data_closed[of fs filename ds limit flt_indices "Some ?train_idx"] assms(1)
  obtain train_items where d1: "?data (Some ?train_idx) = Inr train_items"
    by blast
  from main_data_closed[of fs filename ds limit flt_indices "Some ?test_idx"] assms(1)
  obtain test_items where d2: "?data (Some ?test_idx) = Inr test_items"
    by blast
  have side: "\<exists>i\<in>set sel. get_domain (item_url it) = ?labels ! i"
    if "?data (Some (map (\<lambda>i. fst (urls ! i)) sel)) = Inr items" "it \<in> set items"
      "set sel \<subseteq> {0..<length urls}" for sel items it
  proof -
    from main_data_items[OF assms(1) that(1,2)] obtain i where
      i: "i \<in> set sel" and u: "item_url it = item_url (ds ! fst (urls ! i))"
      by auto
    from i that(3) have il: "i < length urls" by auto
    then have "urls ! i \<in> set urls" by simp
    from main_urls_entries[OF assms(1,2) this] u have "item_url it = snd (urls ! i)"
      by simp
    with il have "get_domain (item_url it) = ?labels ! i"
      by (simp add: main_labels_nth)
    with i show ?thesis by blast
  qed
  have items_disjoint: "(\<lambda>it. get_domain (item_url it)) ` set test_items
             \<inter> (\<lambda>it. get_domain (item_url it)) ` set train_items = {}"
  proof (rule ccontr)
    assume "\<not> ?thesis"
    then obtain a b where a: "a \<in> set test_items" and b: "b \<in> set train_items"
      and eq: "get_domain (item_url a) = get_domain (item_url b)"
      by auto
    have "set test \<subseteq> {0..<length urls}" and "set train \<subseteq> {0..<length urls}"
      by (auto simp: train test)
    from side[OF d2 a this(1)] side[OF d1 b this(2)]
    obtain i j where "i \<in> set test" "get_domain (item_url a) = ?labels ! i"
      and "j \<in> set train" "get_domain (item_url b) = ?labels ! j"
      by blast
    then show False
      using eq by (auto simp: train test)
  qed
  have ids_disjoint: "(\<lambda>i. get_domain (snd (urls ! i))) ` set test
             \<inter> (\<lambda>i. get_domain (snd (urls ! i))) ` set train = {}"
    by (auto simp: train test main_labels_nth)
  from r1 r2 d1 d2 items_disjoint ids_disjoint show ?thesis
    by blast
qed

text \<open>
  The test splits of a distribution that gives every group to one of the folds.
\<close>

lemma LabelKFold_test_partition:
  assumes "\<forall>(_, url)\<in>set urls. fold_of (get_domain url) < n_folds"
  shows "mset (concat (map snd (LabelKFold fold_of (main_labels get_domain urls) n_folds)))
           = mset [0..<length urls]
       \<and> (\<forall>(train, test)\<in>set (LabelKFold fold_of (main_labels get_domain urls) n_folds).
             to_data_idx (map int test) urls = Inr (map (\<lambda>i. fst (urls ! i)) test))
       \<and> mset (concat (map (\<lambda>(train, test). map (\<lambda>i. fst (urls ! i)) test)
                          (LabelKFold fold_of (main_labels get_domain urls) n_folds)))
           = mset (map fst urls)"
proof -
  let ?labels = "main_labels get_domain urls"
  let ?n = "length urls"
  let ?folds = "LabelKFold fold_of ?labels n_folds"
  have len: "length ?labels = ?n"
    by (simp add: main_labels_def)
  have tests: "map snd ?folds = map (\<lambda>f. filter (\<lambda>i. fold_of (?labels ! i) = f) [0..<?n]) [0..<n_folds]"
    by (simp add: LabelKFold_def len comp_def)
  have all: "\<forall>i\<in>set [0..<?n]. fold_of (?labels ! i) < n_folds"
  proof
    fix i assume "i \<in> set [0..<?n]"
    then have il: "i < ?n" by simp
    then have "urls ! i \<in> set urls" by simp
    with assms have "fold_of (get_domain (snd (urls ! i))) < n_folds"
      by (auto simp: case_prod_beta)
    with il show "fold_of (?labels ! i) < n_folds"
      by (simp add: main_labels_nth)
  qed
  have "mset (concat (map snd ?folds)) = mset (filter (\<lambda>i. fold_of (?labels ! i) < n_folds) [0..<?n])"
    unfolding tests by (rule mset_concat_filter_upt)
  also have "filter (\<lambda>i. fold_of (?labels ! i) < n_folds) [0..<?n] = [0..<?n]"
    using all by (simp only: filter_True)
  finally have part: "mset (concat (map snd ?folds)) = mset [0..<?n]" .
  have res: "\<forall>(train, test)\<in>set ?folds.
             to_data_idx (map int test) urls = Inr (map (\<lambda>i. fst (urls ! i)) test)"
    by (auto simp: LabelKFold_def len to_data_idx_positions)
  have "concat (map (\<lambda>(train, test). map (\<lambda>i. fst (urls ! i)) test) ?folds)
      = map (\<lambda>i. fst (urls ! i)) (concat (map snd ?folds))"
    by (simp add: map_concat comp_def split_def)
  then have "mset (concat (map (\<lambda>(train, test). map (\<lambda>i. fst (urls ! i)) test) ?folds))
      = image_mset (\<lambda>i. fst (urls ! i)) (mset (concat (map snd ?folds)))"
    by simp
  also have "\<dots> = mset (map (\<lambda>i. fst (urls ! i)) [0..<?n])"
    by (simp only: part mset_map)
  also have "map (\<lambda>i. fst (urls ! i)) [0..<?n] = map fst urls"
    by (rule nth_equalityI) simp_all
  finally show ?thesis
    using part res by blast
qed


lemma ex_main_urls: "main_urls (main_data ex_fs ''pages.pickle'' None None) = Inr ex_urls"
  by code_simp

lemma ex_folds:
  "LabelKFold ex_fold_of (main_labels ex_get_domain ex_urls) 2 = [([2], [0, 1]), ([0, 1], [2])]"
  by code_simp

lemma ex_resolved:
  "to_data_idx (map int [2]) ex_urls = Inr [3]" "to_data_idx (map int [0, 1]) ex_urls = Inr [0, 2]"
  by code_simp+

theorem folds_no_domain_leak_witness:
  "ex_fs ''pages.pickle'' = Some ex_dataset
   \<and> main_urls (main_data ex_fs ''pages.pickle'' None None) = Inr ex_urls
   \<and> ([2], [0, 1]) \<in> set (LabelKFold ex_fold_of (main_labels ex_get_domain ex_urls) 2)
   \<and> to_data_idx (map int [2]) ex_urls = Inr [3]
   \<and> to_data_idx (map int [0, 1]) ex_urls = Inr [0, 2]
   \<and> (\<exists>train_items test_items.
         main_data ex_fs ''pages.pickle'' None None (Some [3]) = Inr train_items
       \<and> main_data ex_fs ''pages.pickle'' None None (Some [0, 2]) = Inr test_items
       \<and> (\<lambda>it. ex_get_domain (item_url it)) ` set test_items
             \<inter> (\<lambda>it. ex_get_domain (item_url it)) ` set train_items = {})"
proof -
  have fold: "([2], [0, 1]) \<in> set (LabelKFold ex_fold_of (main_labels ex_get_domain ex_urls) 2)"
    by (simp add: ex_folds)
  have "\<exists>train_idx test_idx train_items test_items.
           to_data_idx (map int [2]) ex_urls = Inr train_idx
         \<and> to_data_idx (map int [0, 1]) ex_urls = Inr test_idx
         \<and> main_data ex_fs ''pages.pickle'' None None (Some train_idx) = Inr train_items
         \<and> main_data ex_fs ''pages.pickle'' None None (Some test_idx) = Inr test_items
         \<and> (\<lambda>it. ex_get_domain (item_url it)) ` set test_items
             \<inter> (\<lambda>it. ex_get_domain (item_url it)) ` set train_items = {}
         \<and> (\<lambda>i. ex_get_domain (snd (ex_urls ! i))) ` set [0, 1]
             \<inter> (\<lambda>i. ex_get_domain (snd (ex_urls ! i))) ` set [2] = {}"
    using ex_fs_pages ex_main_urls fold
    by (rule folds_no_domain_leak[of ex_fs "''pages.pickle''" ex_dataset None None ex_urls
          "[2]" "[0, 1]" ex_fold_of ex_get_domain 2])
  then obtain train_idx test_idx train_items test_items where
    r: "to_data_idx (map int [2]) ex_urls = Inr train_idx"
       "to_data_idx (map int [0, 1]) ex_urls = Inr test_idx" and
    d: "main_data ex_fs ''pages.pickle'' None None (Some train_idx) = Inr train_items"
       "main_data ex_fs ''pages.pickle'' None None (Some test_idx) = Inr test_items"
       "(\<lambda>it. ex_get_domain (item_url it)) ` set test_items
             \<inter> (\<lambda>it. ex_get_domain (item_url it)) ` set train_items = {}"
    by (elim exE conjE)
  from r have "train_idx = [3]" "test_idx = [0, 2]"
    by (simp_all only: ex_resolved sum.inject)
  with d have "\<exists>train_items test_items.
         main_data ex_fs ''pages.pickle'' None None (Some [3]) = Inr train_items
       \<and> main_data ex_fs ''pages.pickle'' None None (Some [0, 2]) = Inr test_items
       \<and> (\<lambda>it. ex_get_domain (item_url it)) ` set test_items
             \<inter> (\<lambda>it. ex_get_domain (item_url it)) ` set train_items = {}"
    by (intro exI[of _ train_items] exI[of _ test_items] conjI) (simp_all only:)
  with ex_fs_pages ex_main_urls fold ex_resolved show ?thesis
    by (intro conjI)
qed

lemma lightest_less: "weights \<noteq> [] \<Longrightarrow> lightest weights < length weights"
  by (induction weights rule: lightest.induct) (auto simp: Let_def)

lemma distribute_range:
  "weights \<noteq> [] \<Longrightarrow> (g, f) \<in> set (distribute groups weights) \<Longrightarrow> f < length weights"
proof (induction groups arbitrary: weights)
  case Nil
  then show ?case by simp
next
  case (Cons p groups)
  obtain g' n where p: "p = (g', n)" by (cases p)
  let ?f = "lightest weights"
  let ?w = "weights[?f := weights ! ?f + n]"
  from Cons.prems(2) have "(g, f) = (g', ?f) \<or> (g, f) \<in> set (distribute groups ?w)"
    by (simp add: p Let_def)
  then show ?case
  proof
    assume "(g, f) = (g', ?f)"
    with Cons.prems(1) show ?thesis by (simp add: lightest_less)
  next
    assume "(g, f) \<in> set (distribute groups ?w)"
    moreover from Cons.prems(1) have "?w \<noteq> []" by simp
    ultimately have "f < length ?w" by (rule Cons.IH[rotated])
    then show ?thesis by simp
  qed
qed

lemma distribute_keys: "map fst (distribute groups weights) = map fst groups"
  by (induction groups arbitrary: weights) (auto simp: Let_def)

lemma group_fold_less:
  assumes "0 < n_folds" "l \<in> set labels"
  shows "group_fold labels n_folds l < n_folds"
proof -
  let ?groups = "map (\<lambda>g. (g, count_list labels g)) (remdups labels)"
  let ?d = "distribute ?groups (replicate n_folds 0)"
  have "map fst ?d = remdups labels"
    by (simp add: distribute_keys comp_def)
  then have "fst ` set ?d = set labels"
    by (metis set_map set_remdups)
  with assms(2) obtain f where f: "map_of ?d l = Some f"
    by (cases "map_of ?d l") (auto simp: map_of_eq_None_iff)
  then have "(l, f) \<in> set ?d"
    by (rule map_of_SomeD)
  moreover from assms(1) have "replicate n_folds (0::nat) \<noteq> []"
    by simp
  ultimately have "f < length (replicate n_folds (0::nat))"
    by (rule distribute_range[rotated])
  with f show ?thesis
    by (simp add: group_fold_def)
qed

lemma ex_main_folds: "main_folds ex_get_domain ex_urls 2 = [([2], [0, 1]), ([0, 1], [2])]"
  by code_simp

text \<open>
  Claim C4. The splitter makes K folds, and their test splits together hold every retained
  identity exactly once: the concatenation of the test splits is a permutation of the
  positions of the url list, so that no identity is missing and none occurs twice; each
  test split resolves to the dataset ids at its positions, and the resolved test ids
  together are a permutation of the retained dataset ids. K is at least 1;
  \<^verbatim>\<open>main\<close> asks for 10 folds.
\<close>

theorem folds_test_partition:
  assumes "0 < n_folds"
  shows "length (main_folds get_domain urls n_folds) = n_folds
       \<and> mset (concat (map snd (main_folds get_domain urls n_folds))) = mset [0..<length urls]
       \<and> (\<forall>(train, test)\<in>set (main_folds get_domain urls n_folds).
             to_data_idx (map int test) urls = Inr (map (\<lambda>i. fst (urls ! i)) test))
       \<and> mset (concat (map (\<lambda>(train, test). map (\<lambda>i. fst (urls ! i)) test)
                          (main_folds get_domain urls n_folds)))
           = mset (map fst urls)"
proof -
  let ?labels = "main_labels get_domain urls"
  have folds: "main_folds get_domain urls n_folds
      = LabelKFold (group_fold ?labels n_folds) ?labels n_folds"
    by (simp add: main_folds_def Let_def)
  have "\<forall>(_, url)\<in>set urls. group_fold ?labels n_folds (get_domain url) < n_folds"
  proof (clarify)
    fix idx url assume "(idx, url) \<in> set urls"
    then have "get_domain url \<in> set ?labels"
      by (force simp: main_labels_def)
    with assms show "group_fold ?labels n_folds (get_domain url) < n_folds"
      by (rule group_fold_less)
  qed
  note part = LabelKFold_test_partition[of urls "group_fold ?labels n_folds" get_domain n_folds,
      OF this]
  have len: "length (LabelKFold (group_fold ?labels n_folds) ?labels n_folds) = n_folds"
    by (simp add: LabelKFold_def)
  show ?thesis
    unfolding folds
    by (intro conjI, rule len, rule part[THEN conjunct1],
        rule part[THEN conjunct2, THEN conjunct1], rule part[THEN conjunct2, THEN conjunct2])
qed

theorem folds_test_partition_witness:
  "(0::nat) < 2
   \<and> main_folds ex_get_domain ex_urls 2 = [([2], [0, 1]), ([0, 1], [2])]
   \<and> length (main_folds ex_get_domain ex_urls 2) = 2
   \<and> mset (concat (map snd (main_folds ex_get_domain ex_urls 2))) = mset [0..<length ex_urls]
   \<and> mset (concat (map (\<lambda>(train, test). map (\<lambda>i. fst (ex_urls ! i)) test)
                      (main_folds ex_get_domain ex_urls 2)))
       = mset (map fst ex_urls)"
proof -
  have pos: "(0::nat) < 2" by simp
  note p = folds_test_partition[of 2 ex_get_domain ex_urls, OF pos]
  from pos ex_main_folds p[THEN conjunct1] p[THEN conjunct2, THEN conjunct1]
    p[THEN conjunct2, THEN conjunct2, THEN conjunct2]
  show ?thesis
    by (intro conjI)
qed


end
